theory Spec2Isabelle
  imports Main "HOL-Library.Word"
begin

unbundle bit_operations_syntax

section \<open>Data model\<close>

type_synonym byte = "8 word"

text \<open>
  A Go run-time panic is a value of the model: every function that indexes or slices
  with a computed bound returns \<open>go_panic + 'a\<close>.
\<close>

datatype go_panic = IndexOutOfRange | SliceBoundsOutOfRange | IntegerDivideByZero

text \<open>
  Modelled from the spec: the \<open>Packet\<close> type, its flag constants and its accessor
  \<open>MessageType\<close> are declared in a file of the repository that is not among the sources.
  The spec gives a packet as a fixed-capacity byte region \<open>data\<close>, a cursor \<open>length\<close> and
  \<open>flags\<close>, a bit set over \<open>{ObfuscateBeforeSend, DeobfuscatedAfterReceived}\<close>, and the
  message type as the first byte, \<open>data[0]\<close>. The capacity of the array is the length of
  the list \<open>Data\<close>; \<open>Length\<close> is a Go \<open>int\<close>. The Go test \<open>Flags & F == 0\<close> is
  \<open>F \<notin> Flags\<close> and \<open>Flags |= F\<close> is \<open>insert F Flags\<close>.
\<close>

datatype packet_flag = PacketFlagObfuscateBeforeSend | PacketFlagDeobfuscatedAfterReceived

record packet =
  Data :: "byte list"
  Length :: int
  Flags :: "packet_flag set"

definition MessageType :: "packet \<Rightarrow> int" where
  "MessageType p = uint (Data p ! 0)"

text \<open>
  The constants of the WireGuard library (package \<open>device\<close>) that the obfuscator uses,
  with the values the spec's table of message kinds gives.
\<close>

definition MessageInitiationType :: int where "MessageInitiationType = 1"
definition MessageResponseType :: int where "MessageResponseType = 2"
definition MessageCookieReplyType :: int where "MessageCookieReplyType = 3"
definition MessageTransportType :: int where "MessageTransportType = 4"

definition MessageInitiationSize :: nat where "MessageInitiationSize = 148"
definition MessageResponseSize :: nat where "MessageResponseSize = 92"
definition MessageCookieReplySize :: nat where "MessageCookieReplySize = 64"
definition MessageTransportHeaderSize :: nat where "MessageTransportHeaderSize = 16"
definition MinMessageSize :: nat where "MinMessageSize = 32"

text \<open>The constants of the obfuscator itself.\<close>

definition kObfuscateRandomSuffixMaxLength :: nat where "kObfuscateRandomSuffixMaxLength = 384"
definition kObfuscateSuffixAsNonceMinLength :: nat where "kObfuscateSuffixAsNonceMinLength = 256"
definition kObfuscateNonceLength :: nat where "kObfuscateNonceLength = 16"
definition kObfuscateXORKeyLength :: nat where "kObfuscateXORKeyLength = 8"
definition kMessageInitiationTypeMAC2Offset :: nat where "kMessageInitiationTypeMAC2Offset = 132"
definition kMessageResponseTypeMAC2Offset :: nat where "kMessageResponseTypeMAC2Offset = 76"

record WireGuardObfuscator =
  enabled :: bool
  userKeyHash :: "byte list"

section \<open>Library functions the obfuscator calls\<close>

text \<open>
  The hash functions are those of libraries (SHA-256, XXH64): the model takes them as
  parameters \<open>sha256\<close> and \<open>xxh\<close>, so every theorem holds for every hash function. The
  state of a running \<open>xxhash.Digest\<close> is the list of the bytes written since \<open>Reset\<close>;
  \<open>Sum\<close> appends the 64-bit hash of these bytes, most significant byte first.
\<close>

definition digest_Sum :: "(byte list \<Rightarrow> 64 word) \<Rightarrow> byte list \<Rightarrow> byte list" where
  "digest_Sum xxh d =
     (let s = xxh d in
      [ucast (drop_bit 56 s), ucast (drop_bit 48 s), ucast (drop_bit 40 s),
       ucast (drop_bit 32 s), ucast (drop_bit 24 s), ucast (drop_bit 16 s),
       ucast (drop_bit 8 s), ucast s])"

text \<open>
  A Go slice expression \<open>a[lo:hi]\<close> on an array panics unless \<open>0 \<le> lo \<le> hi \<le> len(a)\<close>.
\<close>

definition slice_ok :: "byte list \<Rightarrow> int \<Rightarrow> int \<Rightarrow> bool" where
  "slice_ok a lo hi = (0 \<le> lo \<and> lo \<le> hi \<and> hi \<le> int (length a))"

text \<open>
  Writing through a slice \<open>a[lo:hi]\<close>: byte \<open>k\<close> of the slice becomes \<open>f k\<close>. With
  \<open>f\<close> the bytes the random generator produces this is \<open>rand.Read(a[lo:hi])\<close>; with a
  constant it is the source's \<open>memset\<close>.
\<close>

definition slice_fill :: "byte list \<Rightarrow> nat \<Rightarrow> nat \<Rightarrow> (nat \<Rightarrow> byte) \<Rightarrow> byte list" where
  "slice_fill a lo hi f =
     map (\<lambda>j. if lo \<le> j \<and> j < hi then f (j - lo) else a ! j) [0..<length a]"

definition memset :: "byte list \<Rightarrow> nat \<Rightarrow> nat \<Rightarrow> byte \<Rightarrow> byte list" where
  "memset a lo hi c = slice_fill a lo hi (\<lambda>_. c)"

fun isAllZero :: "byte list \<Rightarrow> bool" where
  "isAllZero [] = True"
| "isAllZero (v # b) = (if v \<noteq> 0 then False else isAllZero b)"

section \<open>The obfuscator\<close>

definition Initialize ::
  "(string \<Rightarrow> byte list) \<Rightarrow> WireGuardObfuscator \<Rightarrow> string \<Rightarrow> WireGuardObfuscator" where
  "Initialize sha256 ob userKey =
     (if length userKey = 0 then ob\<lparr>enabled := False\<rparr>
      else ob\<lparr>enabled := True, userKeyHash := sha256 userKey\<rparr>)"

definition modifyHashMaskForWireGuardHeaderConflict :: "byte list \<Rightarrow> byte list" where
  "modifyHashMaskForWireGuardHeaderConflict b =
     (if b ! 0 AND 0b11111000 = 0 \<and> b ! 1 AND 0b11111110 = 0
      then (b[0 := b ! 0 OR 0b11010111])[1 := b ! 1 OR 0b01101001]
      else b)"

text \<open>
  The loop \<open>for j := lo; j < hi; j++ { data[j] ^= xorKey[j-base] }\<close>. The source runs
  it below \<open>obfsPartLength\<close>, which is at most 148, on an array that it also slices
  with the constants \<open>132:148\<close>: Go checks constant bounds of an array when it compiles,
  so these indices are inside the array. The slices whose bounds depend on
  \<open>packet.Length\<close> are checked when the program runs, and the model has their panics.
\<close>

definition xor_range :: "byte list \<Rightarrow> byte list \<Rightarrow> nat \<Rightarrow> nat \<Rightarrow> nat \<Rightarrow> byte list" where
  "xor_range data xorKey base lo hi =
     fold (\<lambda>j d. d[j := d ! j XOR xorKey ! (j - base)]) [lo..<hi] data"

text \<open>
  The nonce: \<open>copy(nonce[:], packet.Data[packet.Length-kObfuscateNonceLength:])\<close> into a
  zeroed array of 16 bytes. The slice expression panics when its lower bound is outside
  the array; \<open>copy\<close> copies as many bytes as the shorter of the two slices has.
\<close>

definition read_nonce :: "packet \<Rightarrow> go_panic + byte list" where
  "read_nonce packet =
     (let lo = Length packet - int kObfuscateNonceLength in
      if 0 \<le> lo \<and> lo \<le> int (length (Data packet))
      then let src = drop (nat lo) (Data packet);
               n = min kObfuscateNonceLength (length src)
           in Inr (take n src @ replicate (kObfuscateNonceLength - n) 0)
      else Inl SliceBoundsOutOfRange)"

text \<open>
  The keystream loop of \<open>Obfuscate\<close>, from index \<open>i\<close>: \<open>digest\<close> is the state of the
  running hash, \<open>n\<close> is \<open>obfsPartLength\<close>.
\<close>

function obfs_loop ::
  "(byte list \<Rightarrow> 64 word) \<Rightarrow> byte list \<Rightarrow> nat \<Rightarrow> nat \<Rightarrow> byte list \<Rightarrow> byte list \<Rightarrow> byte list" where
  "obfs_loop xxh ukh n i digest data =
     (if i < n then
        let digest' = digest @ ukh;
            xorKey = digest_Sum xxh digest';
            xorKey' = (if i = 0 then modifyHashMaskForWireGuardHeaderConflict xorKey else xorKey)
        in obfs_loop xxh ukh n (i + kObfuscateXORKeyLength) digest'
             (xor_range data xorKey' i i (min (i + kObfuscateXORKeyLength) n))
      else data)"
  by pat_completeness auto
termination
  by (relation "measure (\<lambda>(xxh, ukh, n, i, digest, data). n - i)")
     (auto simp: kObfuscateXORKeyLength_def)

declare obfs_loop.simps [simp del]

text \<open>
  The three handshake cases of the switch in \<open>Obfuscate\<close> differ in their constants
  only: \<open>msgSize\<close> is the fixed message size and \<open>macOff\<close> the offset of the MAC2 field
  (\<open>None\<close> for a cookie reply, which has none). \<open>ri\<close> is the value \<open>rand.Int()\<close>
  returns and \<open>rb k\<close> the \<open>k\<close>-th byte \<open>rand.Read\<close> produces. The result is the
  packet with \<open>obfsPartLength\<close>.
\<close>

definition obfs_handshake ::
  "nat \<Rightarrow> nat option \<Rightarrow> nat \<Rightarrow> (nat \<Rightarrow> byte) \<Rightarrow> packet \<Rightarrow> go_panic + (packet \<times> nat)" where
  "obfs_handshake msgSize macOff ri rb packet =
     (let packet1 = packet\<lparr>Length := int msgSize + int kObfuscateNonceLength
                                + int (ri mod kObfuscateRandomSuffixMaxLength)\<rparr>;
          (packet2, obfsPartLength) =
            (case macOff of
               None \<Rightarrow> (packet1, msgSize)
             | Some off \<Rightarrow>
                 if isAllZero (take (msgSize - off) (drop off (Data packet1)))
                 then (packet1\<lparr>Data := (Data packet1)[1 := 0x01]\<rparr>, off)
                 else (packet1, msgSize))
      in if slice_ok (Data packet2) (int obfsPartLength) (Length packet2)
         then Inr (packet2\<lparr>Data := slice_fill (Data packet2) obfsPartLength
                                     (nat (Length packet2)) rb\<rparr>, obfsPartLength)
         else Inl SliceBoundsOutOfRange)"

definition obfs_transport :: "(nat \<Rightarrow> byte) \<Rightarrow> packet \<Rightarrow> go_panic + (packet \<times> nat)" where
  "obfs_transport rb packet =
     (if Length packet < int kObfuscateSuffixAsNonceMinLength then
        let packet1 = packet\<lparr>Data := (Data packet)[1 := 0x01]\<rparr>;
            packet2 = packet1\<lparr>Length := Length packet1 + int kObfuscateNonceLength\<rparr>
        in if slice_ok (Data packet2) (Length packet2 - int kObfuscateNonceLength) (Length packet2)
           then Inr (packet2\<lparr>Data := slice_fill (Data packet2)
                                       (nat (Length packet2 - int kObfuscateNonceLength))
                                       (nat (Length packet2)) rb\<rparr>,
                     MessageTransportHeaderSize)
           else Inl SliceBoundsOutOfRange
      else Inr (packet, MessageTransportHeaderSize))"

text \<open>The part of \<open>Obfuscate\<close> after the switch: the nonce and the keystream.\<close>

definition obfs_xor ::
  "(byte list \<Rightarrow> 64 word) \<Rightarrow> WireGuardObfuscator \<Rightarrow> packet \<times> nat \<Rightarrow> go_panic + packet" where
  "obfs_xor xxh ob pn =
     (case pn of (packet, obfsPartLength) \<Rightarrow>
        (case read_nonce packet of
           Inl e \<Rightarrow> Inl e
         | Inr nonce \<Rightarrow>
             Inr (packet\<lparr>Data := obfs_loop xxh (userKeyHash ob) obfsPartLength 0 nonce
                                    (Data packet)\<rparr>)))"

definition then_go :: "go_panic + 'a \<Rightarrow> ('a \<Rightarrow> go_panic + 'b) \<Rightarrow> go_panic + 'b" where
  "then_go r f = (case r of Inl e \<Rightarrow> Inl e | Inr v \<Rightarrow> f v)"

definition Obfuscate ::
  "(byte list \<Rightarrow> 64 word) \<Rightarrow> WireGuardObfuscator \<Rightarrow> nat \<Rightarrow> (nat \<Rightarrow> byte) \<Rightarrow> packet
     \<Rightarrow> go_panic + packet" where
  "Obfuscate xxh ob ri rb packet =
     (if \<not> enabled ob then Inr packet
      else if PacketFlagObfuscateBeforeSend \<notin> Flags packet then Inr packet
      else
        let messageType = MessageType packet in
        if messageType = MessageInitiationType then
          then_go (obfs_handshake MessageInitiationSize (Some kMessageInitiationTypeMAC2Offset)
                     ri rb packet) (obfs_xor xxh ob)
        else if messageType = MessageResponseType then
          then_go (obfs_handshake MessageResponseSize (Some kMessageResponseTypeMAC2Offset)
                     ri rb packet) (obfs_xor xxh ob)
        else if messageType = MessageCookieReplyType then
          then_go (obfs_handshake MessageCookieReplySize None ri rb packet) (obfs_xor xxh ob)
        else if messageType = MessageTransportType then
          then_go (obfs_transport rb packet) (obfs_xor xxh ob)
        else Inr packet)"

text \<open>
  The second loop of \<open>Deobfuscate\<close> (``decode the rest''), from index \<open>i\<close>.
\<close>

function deobfs_loop ::
  "(byte list \<Rightarrow> 64 word) \<Rightarrow> byte list \<Rightarrow> nat \<Rightarrow> nat \<Rightarrow> byte list \<Rightarrow> byte list \<Rightarrow> byte list" where
  "deobfs_loop xxh ukh n i digest data =
     (if i < n then
        let digest' = digest @ ukh;
            xorKey = digest_Sum xxh digest'
        in deobfs_loop xxh ukh n (i + kObfuscateXORKeyLength) digest'
             (xor_range data xorKey i i (min (i + kObfuscateXORKeyLength) n))
      else data)"
  by pat_completeness auto
termination
  by (relation "measure (\<lambda>(xxh, ukh, n, i, digest, data). n - i)")
     (auto simp: kObfuscateXORKeyLength_def)

declare deobfs_loop.simps [simp del]

text \<open>
  The handshake cases of the switch in \<open>Deobfuscate\<close>, with their constants as
  parameters, and the transport case. The result is the packet with \<open>obfsPartLength\<close>.
\<close>

definition deobfs_handshake :: "nat \<Rightarrow> nat option \<Rightarrow> packet \<Rightarrow> packet \<times> nat" where
  "deobfs_handshake msgSize macOff packet =
     (let packet1 = packet\<lparr>Length := int msgSize\<rparr> in
      case macOff of
        None \<Rightarrow> (packet1, msgSize)
      | Some off \<Rightarrow>
          if Data packet1 ! 1 = 0x01
          then (packet1\<lparr>Data := memset ((Data packet1)[1 := 0]) off msgSize 0\<rparr>, off)
          else (packet1, msgSize))"

definition deobfs_transport :: "packet \<Rightarrow> packet \<times> nat" where
  "deobfs_transport packet =
     (if Data packet ! 1 = 0x01
      then (packet\<lparr>Data := (Data packet)[1 := 0],
                    Length := Length packet - int kObfuscateNonceLength\<rparr>,
            MessageTransportHeaderSize)
      else (packet, MessageTransportHeaderSize))"

text \<open>
  The first steps of \<open>Deobfuscate\<close> on a packet that is not passed through: the nonce,
  the first key block, and the first 8 bytes decoded with it. The result is the state of
  the digest with the packet.
\<close>

definition deobfs_first ::
  "(byte list \<Rightarrow> 64 word) \<Rightarrow> WireGuardObfuscator \<Rightarrow> packet \<Rightarrow> go_panic + (byte list \<times> packet)" where
  "deobfs_first xxh ob packet =
     (case read_nonce packet of
        Inl e \<Rightarrow> Inl e
      | Inr nonce \<Rightarrow>
          let digest = nonce @ userKeyHash ob;
              xorKey = modifyHashMaskForWireGuardHeaderConflict (digest_Sum xxh digest)
          in Inr (digest,
                  packet\<lparr>Data := xor_range (Data packet) xorKey 0 0 kObfuscateXORKeyLength\<rparr>))"

text \<open>The end of \<open>Deobfuscate\<close>: the rest of the keystream and the flag.\<close>

definition deobfs_rest ::
  "(byte list \<Rightarrow> 64 word) \<Rightarrow> WireGuardObfuscator \<Rightarrow> byte list \<Rightarrow> packet \<times> nat \<Rightarrow> packet" where
  "deobfs_rest xxh ob digest pn =
     (case pn of (packet, obfsPartLength) \<Rightarrow>
        packet\<lparr>Data := deobfs_loop xxh (userKeyHash ob) obfsPartLength kObfuscateXORKeyLength
                          digest (Data packet),
               Flags := insert PacketFlagDeobfuscatedAfterReceived (Flags packet)\<rparr>)"

definition canonical_header :: "packet \<Rightarrow> bool" where
  "canonical_header packet =
     (Data packet ! 0 \<ge> 1 \<and> Data packet ! 0 \<le> 4 \<and> Data packet ! 1 = 0
      \<and> Data packet ! 2 = 0 \<and> Data packet ! 3 = 0)"

definition Deobfuscate ::
  "(byte list \<Rightarrow> 64 word) \<Rightarrow> WireGuardObfuscator \<Rightarrow> packet \<Rightarrow> go_panic + packet" where
  "Deobfuscate xxh ob packet =
     (if \<not> enabled ob then Inr packet
      else if Length packet < int MinMessageSize then Inr packet
      else if canonical_header packet then Inr packet
      else
        then_go (deobfs_first xxh ob packet) (\<lambda>(digest, packet1).
          let messageType = MessageType packet1 in
          if messageType = MessageInitiationType then
            Inr (deobfs_rest xxh ob digest
                   (deobfs_handshake MessageInitiationSize (Some kMessageInitiationTypeMAC2Offset)
                      packet1))
          else if messageType = MessageResponseType then
            Inr (deobfs_rest xxh ob digest
                   (deobfs_handshake MessageResponseSize (Some kMessageResponseTypeMAC2Offset)
                      packet1))
          else if messageType = MessageCookieReplyType then
            Inr (deobfs_rest xxh ob digest (deobfs_handshake MessageCookieReplySize None packet1))
          else if messageType = MessageTransportType then
            Inr (deobfs_rest xxh ob digest (deobfs_transport packet1))
          else Inr packet1))"

section \<open>The client-side mangler\<close>

datatype client_error = ErrPacketTooShort int

text \<open>
  The fields \<open>id\<close> and \<open>xorKey\<close> of the source's \<open>Client\<close>; \<open>xorKey\<close> is \<open>None\<close> for the
  nil slice. \<open>manglePacket\<close> returns the packet with the error (Go returns both), or
  panics: \<open>packet[1]\<close> is an index expression on a slice, checked against its length at
  run time, and \<open>i % len(c.xorKey)\<close> divides by the length of the key.
\<close>

record Client =
  client_id :: int
  client_xorKey :: "byte list option"

definition manglePacket ::
  "Client \<Rightarrow> byte list \<Rightarrow> go_panic + (byte list \<times> client_error option)" where
  "manglePacket c packet =
     (let err = (if length packet < 4 then Some (ErrPacketTooShort (int (length packet)))
                 else None)
      in if length packet \<le> 1 then Inl IndexOutOfRange
         else
           let packet1 = packet[1 := word_of_int (client_id c)] in
           case client_xorKey c of
             None \<Rightarrow> Inr (packet1, err)
           | Some key \<Rightarrow>
               if length key = 0 then Inl IntegerDivideByZero
               else Inr (fold (\<lambda>i p. p[i := p ! i XOR key ! (i mod length key)])
                           [0..<length packet1] packet1, err))"

text \<open>
  One turn of the loop of \<open>Client.Start\<close> on a datagram it has read: the datagram is
  forwarded, or dropped with the error that is logged, or the panic of \<open>manglePacket\<close>
  ends the program (nothing recovers it).
\<close>

datatype client_action = Forward "byte list" | Drop client_error | Crash go_panic

definition client_step :: "Client \<Rightarrow> byte list \<Rightarrow> client_action" where
  "client_step c packet =
     (case manglePacket c packet of
        Inl e \<Rightarrow> Crash e
      | Inr (mangledPacket, Some err) \<Rightarrow> Drop err
      | Inr (mangledPacket, None) \<Rightarrow> Forward mangledPacket)"

section \<open>Notions the properties are stated with\<close>

text \<open>
  The packets the codec receives, as the spec gives them: the capacity holds the longest
  padded handshake message (\<open>148 + 384 + 16\<close>), and \<open>4 \<le> length \<le> capacity\<close>.
\<close>

definition kMinCapacity :: nat where "kMinCapacity = 148 + 384 + 16"

definition packet_ok :: "packet \<Rightarrow> bool" where
  "packet_ok p =
     (kMinCapacity \<le> length (Data p) \<and> 4 \<le> Length p \<and> Length p \<le> int (length (Data p)))"

text \<open>
  A WireGuard frame: the canonical header, and the length of its message kind (the
  fixed size of a handshake message, at least \<open>MinMessageSize\<close> for transport data).
\<close>

definition wireguard_frame :: "packet \<Rightarrow> bool" where
  "wireguard_frame p =
     (canonical_header p \<and>
      (if MessageType p = MessageInitiationType then Length p = int MessageInitiationSize
       else if MessageType p = MessageResponseType then Length p = int MessageResponseSize
       else if MessageType p = MessageCookieReplyType then Length p = int MessageCookieReplySize
       else int MinMessageSize \<le> Length p))"

text \<open>
  The keystream: the first key block with the collision fix, the byte of the later
  blocks at offset \<open>k\<close> from a digest state \<open>d\<close>, and the byte that \<open>Obfuscate\<close> XORs
  into position \<open>m\<close>.
\<close>

definition first_block :: "(byte list \<Rightarrow> 64 word) \<Rightarrow> byte list \<Rightarrow> byte list \<Rightarrow> byte list" where
  "first_block xxh ukh nonce =
     modifyHashMaskForWireGuardHeaderConflict (digest_Sum xxh (nonce @ ukh))"

definition keystream :: "(byte list \<Rightarrow> 64 word) \<Rightarrow> byte list \<Rightarrow> byte list \<Rightarrow> nat \<Rightarrow> byte" where
  "keystream xxh ukh d k =
     digest_Sum xxh (d @ concat (replicate (Suc (k div 8)) ukh)) ! (k mod 8)"

definition obfs_key :: "(byte list \<Rightarrow> 64 word) \<Rightarrow> byte list \<Rightarrow> byte list \<Rightarrow> nat \<Rightarrow> byte" where
  "obfs_key xxh ukh nonce m =
     (if m < 8 then first_block xxh ukh nonce ! m else keystream xxh ukh (nonce @ ukh) (m - 8))"

text \<open>
  The nonce of a packet whose last 16 bytes lie inside the array (what \<open>read_nonce\<close>
  returns then).
\<close>

definition nonce_of :: "packet \<Rightarrow> byte list" where
  "nonce_of p =
     map (\<lambda>k. Data p ! (nat (Length p - int kObfuscateNonceLength) + k))
       [0..<kObfuscateNonceLength]"

text \<open>
  What the switch of \<open>Obfuscate\<close> computes when no slice panics: \<open>obfsPartLength\<close> of a
  handshake message (the MAC2 offset when the MAC2 field is zero, the message size
  otherwise) and the padded packet, for a handshake message and for a transport message.
\<close>

definition hs_part :: "nat \<Rightarrow> nat option \<Rightarrow> packet \<Rightarrow> nat" where
  "hs_part msgSize macOff P =
     (case macOff of
        None \<Rightarrow> msgSize
      | Some off \<Rightarrow> if isAllZero (take (msgSize - off) (drop off (Data P))) then off else msgSize)"

definition hs_padded :: "nat \<Rightarrow> nat option \<Rightarrow> nat \<Rightarrow> (nat \<Rightarrow> byte) \<Rightarrow> packet \<Rightarrow> packet" where
  "hs_padded msgSize macOff ri rb P =
     P\<lparr>Data := slice_fill
                  (if hs_part msgSize macOff P = msgSize then Data P else (Data P)[1 := 0x01])
                  (hs_part msgSize macOff P) (msgSize + 16 + ri mod 384) rb,
       Length := int msgSize + 16 + int (ri mod 384)\<rparr>"

definition tr_padded :: "(nat \<Rightarrow> byte) \<Rightarrow> packet \<Rightarrow> packet" where
  "tr_padded rb P =
     (if Length P < 256
      then P\<lparr>Data := slice_fill ((Data P)[1 := 0x01]) (nat (Length P)) (nat (Length P) + 16) rb,
             Length := Length P + 16\<rparr>
      else P)"

text \<open>
  The packet on the wire, from the padded packet \<open>p\<close> and \<open>obfsPartLength\<close>, and the
  same packet after the first key block is XORed into its first 8 bytes again, as the
  first decoding step of \<open>Deobfuscate\<close> does.
\<close>

definition wire ::
  "(byte list \<Rightarrow> 64 word) \<Rightarrow> WireGuardObfuscator \<Rightarrow> packet \<Rightarrow> nat \<Rightarrow> packet" where
  "wire xxh ob p n =
     p\<lparr>Data := obfs_loop xxh (userKeyHash ob) n 0 (nonce_of p) (Data p)\<rparr>"

definition unmasked ::
  "(byte list \<Rightarrow> 64 word) \<Rightarrow> WireGuardObfuscator \<Rightarrow> packet \<Rightarrow> nat \<Rightarrow> packet" where
  "unmasked xxh ob p n =
     p\<lparr>Data := xor_range (obfs_loop xxh (userKeyHash ob) n 0 (nonce_of p) (Data p))
                  (first_block xxh (userKeyHash ob) (nonce_of p)) 0 0 8\<rparr>"

text \<open>
  The packet after the switch of \<open>Deobfuscate\<close>, for a handshake message with
  \<open>obfsPartLength = n\<close> (the marker was set when \<open>n\<close> is not the message size).
\<close>

definition hs_cleared :: "nat \<Rightarrow> nat \<Rightarrow> packet \<Rightarrow> packet" where
  "hs_cleared msgSize n U =
     (if n = msgSize then U\<lparr>Length := int msgSize\<rparr>
      else U\<lparr>Length := int msgSize, Data := memset ((Data U)[1 := 0]) n msgSize 0\<rparr>)"

text \<open>
  The packet after the switch of \<open>Deobfuscate\<close>, for a transport message (\<open>short\<close>:
  the marker was set).
\<close>

definition tr_cleared :: "bool \<Rightarrow> packet \<Rightarrow> packet" where
  "tr_cleared short U =
     (if short then U\<lparr>Data := (Data U)[1 := 0], Length := Length U - 16\<rparr> else U)"

text \<open>
  The MAC2 field of a Response message,
  \<open>packet.Data[kMessageResponseTypeMAC2Offset:device.MessageResponseSize]\<close>.
\<close>

definition response_MAC2 :: "packet \<Rightarrow> byte list" where
  "response_MAC2 p =
     take (MessageResponseSize - kMessageResponseTypeMAC2Offset)
       (drop kMessageResponseTypeMAC2Offset (Data p))"

section \<open>Concrete instances\<close>

text \<open>
  The XXH64 hash (seed 0) of the xxHash library, for the concrete instances below; the
  theorems do not depend on it.
\<close>

definition PRIME64_1 :: "64 word" where "PRIME64_1 = 0x9E3779B185EBCA87"
definition PRIME64_2 :: "64 word" where "PRIME64_2 = 0xC2B2AE3D27D4EB4F"
definition PRIME64_3 :: "64 word" where "PRIME64_3 = 0x165667B19E3779F9"
definition PRIME64_4 :: "64 word" where "PRIME64_4 = 0x85EBCA77C2B2AE63"
definition PRIME64_5 :: "64 word" where "PRIME64_5 = 0x27D4EB2F165667C5"

definition rotl64 :: "64 word \<Rightarrow> nat \<Rightarrow> 64 word" where
  "rotl64 x r = push_bit r x OR drop_bit (64 - r) x"

fun le_word :: "byte list \<Rightarrow> 64 word" where
  "le_word [] = 0"
| "le_word (x # xs) = ucast x OR push_bit 8 (le_word xs)"

definition XXH64_round :: "64 word \<Rightarrow> 64 word \<Rightarrow> 64 word" where
  "XXH64_round acc inp = rotl64 (acc + inp * PRIME64_2) 31 * PRIME64_1"

definition XXH64_mergeRound :: "64 word \<Rightarrow> 64 word \<Rightarrow> 64 word" where
  "XXH64_mergeRound acc val = (acc XOR XXH64_round 0 val) * PRIME64_1 + PRIME64_4"

fun XXH64_stripes ::
  "64 word \<times> 64 word \<times> 64 word \<times> 64 word \<Rightarrow> byte list
     \<Rightarrow> (64 word \<times> 64 word \<times> 64 word \<times> 64 word) \<times> byte list" where
  "XXH64_stripes (v1, v2, v3, v4) b =
     (if 32 \<le> length b then
        XXH64_stripes
          (XXH64_round v1 (le_word (take 8 b)),
           XXH64_round v2 (le_word (take 8 (drop 8 b))),
           XXH64_round v3 (le_word (take 8 (drop 16 b))),
           XXH64_round v4 (le_word (take 8 (drop 24 b))))
          (drop 32 b)
      else ((v1, v2, v3, v4), b))"

fun XXH64_tail8 :: "64 word \<Rightarrow> byte list \<Rightarrow> 64 word \<times> byte list" where
  "XXH64_tail8 h b =
     (if 8 \<le> length b then
        XXH64_tail8
          (rotl64 (h XOR XXH64_round 0 (le_word (take 8 b))) 27 * PRIME64_1 + PRIME64_4)
          (drop 8 b)
      else (h, b))"

fun XXH64_tail1 :: "64 word \<Rightarrow> byte list \<Rightarrow> 64 word" where
  "XXH64_tail1 h [] = h"
| "XXH64_tail1 h (x # b) = XXH64_tail1 (rotl64 (h XOR ucast x * PRIME64_5) 11 * PRIME64_1) b"

definition XXH64_avalanche :: "64 word \<Rightarrow> 64 word" where
  "XXH64_avalanche h0 =
     (let h1 = (h0 XOR drop_bit 33 h0) * PRIME64_2;
          h2 = (h1 XOR drop_bit 29 h1) * PRIME64_3
      in h2 XOR drop_bit 32 h2)"

definition XXH64 :: "byte list \<Rightarrow> 64 word" where
  "XXH64 b =
     (let (h0, rest) =
            (if 32 \<le> length b then
               (case XXH64_stripes (PRIME64_1 + PRIME64_2, PRIME64_2, 0, - PRIME64_1) b of
                  ((v1, v2, v3, v4), rest) \<Rightarrow>
                    (XXH64_mergeRound (XXH64_mergeRound (XXH64_mergeRound (XXH64_mergeRound
                       (rotl64 v1 1 + rotl64 v2 7 + rotl64 v3 12 + rotl64 v4 18) v1) v2) v3) v4,
                     rest))
             else (PRIME64_5, b));
          (h1, rest1) = XXH64_tail8 (h0 + word_of_nat (length b)) rest;
          (h2, rest2) =
            (if 4 \<le> length rest1
             then (rotl64 (h1 XOR le_word (take 4 rest1) * PRIME64_1) 23 * PRIME64_2 + PRIME64_3,
                   drop 4 rest1)
             else (h1, rest1))
      in XXH64_avalanche (XXH64_tail1 h2 rest2))"

text \<open>
  An enabled obfuscator whose key hash is the SHA-256 of the key of the test
  configuration (\<open>kisekimo, mahoumo, muryoudewaarimasen\<close>), a stand-in for SHA-256 where
  a concrete instance needs a function and its value plays no part, random bytes, and
  three packets of capacity 2048: a Response message whose MAC2 field is zero and a
  transport message of length 100, both with the flag \<open>ObfuscateBeforeSend\<close>, and a
  packet of zeros of length 32 with no flag. The client has the peer id 7 and no XOR key.
\<close>

definition test_userKeyHash :: "byte list" where
  "test_userKeyHash =
     [85, 35, 108, 105, 239, 254, 128, 16, 33, 39, 147, 222, 69, 114, 96, 16,
      7, 37, 173, 250, 244, 142, 219, 63, 158, 207, 206, 102, 45, 81, 159, 212]"

definition test_obfuscator :: WireGuardObfuscator where
  "test_obfuscator = \<lparr>enabled = True, userKeyHash = test_userKeyHash\<rparr>"

definition test_sha :: "string \<Rightarrow> byte list" where
  "test_sha key = replicate 32 0"

definition test_random :: "nat \<Rightarrow> byte" where
  "test_random k = word_of_nat (k + 1)"

definition test_response :: packet where
  "test_response =
     \<lparr>Data = [2, 0, 0, 0] @ replicate 72 9 @ replicate 1972 0, Length = 92,
      Flags = {PacketFlagObfuscateBeforeSend}\<rparr>"

definition test_transport :: packet where
  "test_transport =
     \<lparr>Data = [4, 0, 0, 0] @ replicate 96 7 @ replicate 1948 0, Length = 100,
      Flags = {PacketFlagObfuscateBeforeSend}\<rparr>"

definition test_zeros :: packet where
  "test_zeros = \<lparr>Data = replicate 2048 0, Length = 32, Flags = {}\<rparr>"

definition test_client :: Client where
  "test_client = \<lparr>client_id = 7, client_xorKey = None\<rparr>"

section \<open>Properties\<close>

lemma then_go_Inr [simp]: "then_go (Inr v) f = f v"
  by (simp add: then_go_def)

lemma then_go_Inl [simp]: "then_go (Inl e) f = Inl e"
  by (simp add: then_go_def)

subsection \<open>Test vectors of XXH64\<close>

lemma XXH64_empty: "XXH64 [] = 0xEF46DB3751D8E999"
  by code_simp

lemma XXH64_abc: "XXH64 [0x61, 0x62, 0x63] = 0x44BC2CF5AD770999"
  by code_simp

lemma XXH64_63_bytes:
  "XXH64 (map (\<lambda>c. word_of_nat (of_char c))
            ''Call me Ishmael. Some years ago--never mind how long precisely-'')
   = 0x02A2E85470D6FD96"
  by code_simp

subsection \<open>Lists, slices and the keystream loops\<close>

lemma length_fold_upd:
  "length (fold (\<lambda>j d. d[j := g j d]) js d) = length d"
  by (induction js arbitrary: d) auto

lemma nth_fold_upd:
  "distinct js \<Longrightarrow>
   fold (\<lambda>j d. d[j := f j (d ! j)]) js d ! m =
     (if m \<in> set js \<and> m < length d then f m (d ! m) else d ! m)"
proof (induction js arbitrary: d)
  case Nil
  then show ?case by simp
next
  case (Cons j js)
  show ?case
  proof (cases "j = m")
    case True
    with Cons show ?thesis by (cases "m < length d") (auto simp: list_update_beyond)
  next
    case False
    with Cons show ?thesis by auto
  qed
qed

lemma length_xor_range [simp]: "length (xor_range data k base lo hi) = length data"
  by (simp add: xor_range_def length_fold_upd)

lemma nth_xor_range:
  "xor_range data k base lo hi ! m =
     (if lo \<le> m \<and> m < hi \<and> m < length data then data ! m XOR k ! (m - base) else data ! m)"
  unfolding xor_range_def
  using nth_fold_upd [of "[lo..<hi]" "\<lambda>j v. v XOR k ! (j - base)" data m]
  by auto

lemma length_slice_fill [simp]: "length (slice_fill a lo hi f) = length a"
  by (simp add: slice_fill_def)

lemma nth_slice_fill:
  "m < length a \<Longrightarrow> slice_fill a lo hi f ! m = (if lo \<le> m \<and> m < hi then f (m - lo) else a ! m)"
  by (simp add: slice_fill_def)

lemma length_memset [simp]: "length (memset a lo hi c) = length a"
  by (simp add: memset_def)

lemma nth_memset:
  "m < length a \<Longrightarrow> memset a lo hi c ! m = (if lo \<le> m \<and> m < hi then c else a ! m)"
  by (simp add: memset_def nth_slice_fill)

lemma length_digest_Sum [simp]: "length (digest_Sum xxh d) = 8"
  by (simp add: digest_Sum_def Let_def)

lemma length_modifyHashMask [simp]:
  "length (modifyHashMaskForWireGuardHeaderConflict b) = length b"
  by (simp add: modifyHashMaskForWireGuardHeaderConflict_def)

lemma isAllZero_iff: "isAllZero b \<longleftrightarrow> (\<forall>v \<in> set b. v = 0)"
  by (induction b) auto

lemma length_deobfs_loop [simp]: "length (deobfs_loop xxh ukh n i d data) = length data"
proof (induction xxh ukh n i d data rule: deobfs_loop.induct)
  case (1 xxh ukh n i digest data)
  show ?case
  proof (cases "i < n")
    case True
    with 1 show ?thesis by (subst deobfs_loop.simps) (simp add: Let_def)
  next
    case False
    then show ?thesis by (subst deobfs_loop.simps) simp
  qed
qed

lemma keystream_shift:
  "keystream xxh ukh (d @ ukh) k = keystream xxh ukh d (k + 8)"
proof -
  have "(k + 8) div 8 = Suc (k div 8)" by simp
  then show ?thesis by (simp add: keystream_def)
qed

lemma nth_deobfs_loop:
  "deobfs_loop xxh ukh n i d data ! m =
     (if i \<le> m \<and> m < n \<and> m < length data
      then data ! m XOR keystream xxh ukh d (m - i) else data ! m)"
proof (induction xxh ukh n i d data rule: deobfs_loop.induct)
  case (1 xxh ukh n i digest data)
  show ?case
  proof (cases "i < n")
    case False
    then show ?thesis by (subst deobfs_loop.simps) auto
  next
    case True
    have step: "deobfs_loop xxh ukh n i digest data =
        deobfs_loop xxh ukh n (i + 8) (digest @ ukh)
          (xor_range data (digest_Sum xxh (digest @ ukh)) i i (min (i + 8) n))"
      using True by (subst deobfs_loop.simps) (simp add: Let_def kObfuscateXORKeyLength_def)
    have ih: "deobfs_loop xxh ukh n (i + 8) (digest @ ukh)
          (xor_range data (digest_Sum xxh (digest @ ukh)) i i (min (i + 8) n)) ! m =
        (if i + 8 \<le> m \<and> m < n \<and> m < length data
         then xor_range data (digest_Sum xxh (digest @ ukh)) i i (min (i + 8) n) ! m
                XOR keystream xxh ukh (digest @ ukh) (m - (i + 8))
         else xor_range data (digest_Sum xxh (digest @ ukh)) i i (min (i + 8) n) ! m)"
      using 1 [OF True refl refl] by (simp add: kObfuscateXORKeyLength_def)
    have k0: "m - i < 8 \<Longrightarrow> keystream xxh ukh digest (m - i) = digest_Sum xxh (digest @ ukh) ! (m - i)"
      by (simp add: keystream_def)
    have k1: "i + 8 \<le> m \<Longrightarrow> keystream xxh ukh (digest @ ukh) (m - (i + 8)) = keystream xxh ukh digest (m - i)"
      by (simp add: keystream_shift)
    show ?thesis
      unfolding step ih
      by (auto simp: nth_xor_range k0 k1)
  qed
qed

lemma length_first_block [simp]: "length (first_block xxh ukh nonce) = 8"
  by (simp add: first_block_def)

lemma obfs_loop_later:
  "i \<noteq> 0 \<Longrightarrow> obfs_loop xxh ukh n i d data = deobfs_loop xxh ukh n i d data"
proof (induction xxh ukh n i d data rule: obfs_loop.induct)
  case (1 xxh ukh n i digest data)
  show ?case
  proof (cases "i < n")
    case False
    then show ?thesis by (subst obfs_loop.simps, subst deobfs_loop.simps) simp
  next
    case True
    with 1 show ?thesis
      by (subst obfs_loop.simps, subst deobfs_loop.simps)
         (simp add: Let_def kObfuscateXORKeyLength_def)
  qed
qed

lemma obfs_loop_start:
  "0 < n \<Longrightarrow> obfs_loop xxh ukh n 0 nonce data =
     deobfs_loop xxh ukh n 8 (nonce @ ukh)
       (xor_range data (first_block xxh ukh nonce) 0 0 (min 8 n))"
  by (subst obfs_loop.simps)
     (simp add: Let_def kObfuscateXORKeyLength_def first_block_def obfs_loop_later)

lemma obfs_loop_done: "\<not> i < n \<Longrightarrow> obfs_loop xxh ukh n i d data = data"
  by (subst obfs_loop.simps) simp

lemma length_obfs_loop [simp]: "length (obfs_loop xxh ukh n 0 nonce data) = length data"
  by (cases "0 < n") (simp_all add: obfs_loop_start obfs_loop_done)

lemma nth_obfs_loop:
  "obfs_loop xxh ukh n 0 nonce data ! m =
     (if m < n \<and> m < length data then data ! m XOR obfs_key xxh ukh nonce m else data ! m)"
proof (cases "0 < n")
  case False
  then show ?thesis by (simp add: obfs_loop_done)
next
  case True
  show ?thesis
    unfolding obfs_loop_start [OF True]
    by (auto simp: nth_deobfs_loop nth_xor_range obfs_key_def)
qed

lemma xor_twice: "(a XOR k) XOR k = (a :: byte)"
  by (simp add: xor.assoc)

lemma nth_unmask:
  "8 \<le> n \<Longrightarrow>
   xor_range (obfs_loop xxh ukh n 0 nonce data) (first_block xxh ukh nonce) 0 0 8 ! m =
     (if 8 \<le> m \<and> m < n \<and> m < length data
      then data ! m XOR keystream xxh ukh (nonce @ ukh) (m - 8) else data ! m)"
  by (auto simp: nth_xor_range nth_obfs_loop obfs_key_def xor_twice)

lemma nth_decoded:
  assumes "8 \<le> n"
    and "length data3 = length data"
    and "\<And>k. 8 \<le> k \<Longrightarrow> k < n \<Longrightarrow> data3 ! k =
           xor_range (obfs_loop xxh ukh n 0 nonce data) (first_block xxh ukh nonce) 0 0 8 ! k"
  shows "deobfs_loop xxh ukh n 8 (nonce @ ukh) data3 ! m =
     (if 8 \<le> m \<and> m < n \<and> m < length data then data ! m else data3 ! m)"
  using assms by (auto simp: nth_deobfs_loop nth_unmask xor_twice)

subsection \<open>The collision fix of the first key block\<close>

lemma byte_le4_cases:
  fixes x :: byte
  assumes "x \<le> 4"
  shows "x = 0 \<or> x = 1 \<or> x = 2 \<or> x = 3 \<or> x = 4"
proof -
  from assms have "unat x \<le> 4" by (simp add: word_le_nat_alt)
  then show ?thesis by (simp add: word_unat_eq_iff) arith
qed

lemma le4_mask: "(x :: byte) \<le> 4 \<Longrightarrow> x AND 0b11111000 = 0"
  using byte_le4_cases [of x] by auto

lemma modify_mask:
  assumes "2 \<le> length b"
  shows "modifyHashMaskForWireGuardHeaderConflict b ! 0 AND 0b11111000 \<noteq> 0
       \<or> modifyHashMaskForWireGuardHeaderConflict b ! 1 AND 0b11111110 \<noteq> 0"
proof (cases "b ! 0 AND 0b11111000 = 0 \<and> b ! 1 AND 0b11111110 = 0")
  case False
  then show ?thesis by (auto simp: modifyHashMaskForWireGuardHeaderConflict_def)
next
  case True
  have "bit ((b ! 0 OR 0b11010111) AND (0b11111000 :: byte)) 4"
    by (simp add: bit_and_iff bit_or_iff)
  then have "(b ! 0 OR 0b11010111) AND (0b11111000 :: byte) \<noteq> 0"
    by auto
  moreover from assms have "0 < length b" by (cases b) auto
  ultimately show ?thesis using True
    by (simp add: modifyHashMaskForWireGuardHeaderConflict_def nth_list_update)
qed

lemma first_block_mask:
  "first_block xxh ukh nonce ! 0 AND 0b11111000 \<noteq> 0
   \<or> first_block xxh ukh nonce ! 1 AND 0b11111110 \<noteq> 0"
  unfolding first_block_def by (rule modify_mask) simp

lemma masked_header_not_canonical:
  fixes a b t m :: byte
  assumes mask: "a AND 0b11111000 \<noteq> 0 \<or> b AND 0b11111110 \<noteq> 0"
    and t: "t \<le> 4" and m: "m = 0 \<or> m = 1"
  shows "\<not> (t XOR a \<le> 4 \<and> m XOR b = 0)"
proof
  assume h: "t XOR a \<le> 4 \<and> m XOR b = 0"
  have "(t XOR a) AND 0b11111000 = 0" using h le4_mask by blast
  moreover have "t AND 0b11111000 = 0" using t le4_mask by blast
  ultimately have a: "a AND 0b11111000 = 0"
    by (simp add: bit.conj_xor_distrib2)
  from h have "b = m" by (metis bit.xor_left_self xor.right_neutral)
  with m have "b AND 0b11111110 = 0" by auto
  with a mask show False by simp
qed

subsection \<open>Packets that pass through\<close>

lemma test_transport_canonical: "canonical_header test_transport"
  by (simp add: canonical_header_def test_transport_def)

text \<open>
  C3. A packet of length at least \<open>MinMessageSize\<close> whose first four bytes are
  \<open>{1..4}, 0, 0, 0\<close> is returned by \<open>Deobfuscate\<close> as it is, for every obfuscator: data,
  length and flags are those of the input, so \<open>DeobfuscatedAfterReceived\<close> is not set.
\<close>

theorem Deobfuscate_passthrough:
  assumes "int MinMessageSize \<le> Length P" and "canonical_header P"
  shows "Deobfuscate xxh ob P = Inr P"
  using assms by (simp add: Deobfuscate_def)

theorem Deobfuscate_passthrough_witness:
  "int MinMessageSize \<le> Length test_transport \<and> canonical_header test_transport
   \<and> Deobfuscate XXH64 test_obfuscator test_transport = Inr test_transport"
proof -
  have a: "int MinMessageSize \<le> Length test_transport"
    by (simp add: MinMessageSize_def test_transport_def)
  have b: "canonical_header test_transport"
    by (rule test_transport_canonical)
  from a b Deobfuscate_passthrough [OF a b] show ?thesis by simp
qed

text \<open>
  C6. \<open>Deobfuscate\<close> is idempotent on canonical input: on a packet with the canonical
  header it returns a packet on which it returns the same packet again.
\<close>

theorem Deobfuscate_idempotent_canonical:
  assumes "canonical_header P"
  shows "\<exists>R. Deobfuscate xxh ob P = Inr R \<and> Deobfuscate xxh ob R = Inr R"
  using assms by (simp add: Deobfuscate_def)

theorem Deobfuscate_idempotent_canonical_witness:
  "canonical_header test_transport
   \<and> (\<exists>R. Deobfuscate XXH64 test_obfuscator test_transport = Inr R
          \<and> Deobfuscate XXH64 test_obfuscator R = Inr R)"
  using Deobfuscate_idempotent_canonical [OF test_transport_canonical]
    test_transport_canonical by simp

text \<open>
  C7. An obfuscator initialized with the empty key is disabled, and then \<open>Obfuscate\<close>
  and \<open>Deobfuscate\<close> return every packet as it is; and every obfuscator's \<open>Obfuscate\<close>
  returns a packet whose flag \<open>ObfuscateBeforeSend\<close> is clear as it is.
\<close>

theorem disabled_identity:
  "\<not> enabled (Initialize sha256 ob [])
   \<and> Obfuscate xxh (Initialize sha256 ob []) ri rb P = Inr P
   \<and> Deobfuscate xxh (Initialize sha256 ob []) P = Inr P
   \<and> (PacketFlagObfuscateBeforeSend \<notin> Flags P \<longrightarrow> Obfuscate xxh ob' ri rb P = Inr P)"
  by (simp add: Initialize_def Obfuscate_def Deobfuscate_def)

theorem disabled_identity_witness:
  "PacketFlagObfuscateBeforeSend \<notin> Flags test_zeros
   \<and> \<not> enabled (Initialize test_sha test_obfuscator [])
   \<and> Obfuscate XXH64 (Initialize test_sha test_obfuscator []) 0 test_random test_transport
       = Inr test_transport
   \<and> Deobfuscate XXH64 (Initialize test_sha test_obfuscator []) test_transport = Inr test_transport
   \<and> Obfuscate XXH64 test_obfuscator 0 test_random test_zeros = Inr test_zeros"
proof -
  have a: "PacketFlagObfuscateBeforeSend \<notin> Flags test_zeros"
    by (simp add: test_zeros_def)
  from disabled_identity [of test_sha test_obfuscator XXH64 0 test_random test_transport]
    disabled_identity [of test_sha test_obfuscator XXH64 0 test_random test_zeros test_obfuscator] a
  show ?thesis by simp
qed

text \<open>
  C8. A packet shorter than \<open>MinMessageSize\<close> is returned by \<open>Deobfuscate\<close> as it is, for
  every obfuscator: no byte, not the length and no flag changes.
\<close>

theorem Deobfuscate_short_untouched:
  assumes "Length P < int MinMessageSize"
  shows "Deobfuscate xxh ob P = Inr P"
  using assms by (simp add: Deobfuscate_def)

theorem Deobfuscate_short_untouched_witness:
  "Length (test_zeros\<lparr>Length := 31\<rparr>) < int MinMessageSize
   \<and> Deobfuscate XXH64 test_obfuscator (test_zeros\<lparr>Length := 31\<rparr>)
       = Inr (test_zeros\<lparr>Length := 31\<rparr>)"
proof -
  have a: "Length (test_zeros\<lparr>Length := 31\<rparr>) < int MinMessageSize"
    by (simp add: MinMessageSize_def)
  from a Deobfuscate_short_untouched [OF a] show ?thesis by simp
qed

subsection \<open>What \<open>Obfuscate\<close> returns\<close>

lemma read_nonce_ok:
  assumes "16 \<le> Length p" and "Length p \<le> int (length (Data p))"
  shows "read_nonce p = Inr (nonce_of p)"
proof -
  let ?lo = "nat (Length p - 16)"
  have len: "?lo + 16 \<le> length (Data p)" using assms by linarith
  have "take 16 (drop ?lo (Data p)) = map (\<lambda>k. Data p ! (?lo + k)) [0..<16]"
    using len by (intro nth_equalityI) auto
  moreover have "min 16 (length (Data p) - ?lo) = 16" using len by simp
  ultimately show ?thesis
    using assms by (simp add: read_nonce_def nonce_of_def kObfuscateNonceLength_def Let_def)
qed

lemma obfs_xor_ok:
  assumes "16 \<le> Length p" and "Length p \<le> int (length (Data p))"
  shows "obfs_xor xxh ob (p, n) =
           Inr (p\<lparr>Data := obfs_loop xxh (userKeyHash ob) n 0 (nonce_of p) (Data p)\<rparr>)"
  using read_nonce_ok [OF assms] by (simp add: obfs_xor_def)

lemma hs_part_le:
  assumes "\<And>off. macOff = Some off \<Longrightarrow> off < msgSize"
  shows "hs_part msgSize macOff P \<le> msgSize"
  using assms by (cases macOff) (auto simp: hs_part_def)

lemma obfs_handshake_eq:
  assumes cap: "int msgSize + 16 + 383 \<le> int (length (Data P))"
    and off: "\<And>off. macOff = Some off \<Longrightarrow> off < msgSize"
  shows "obfs_handshake msgSize macOff ri rb P =
           Inr (hs_padded msgSize macOff ri rb P, hs_part msgSize macOff P)"
proof -
  let ?L = "int msgSize + 16 + int (ri mod 384)"
  have r: "ri mod 384 \<le> 383" by simp
  have L: "?L \<le> int (length (Data P))" "int msgSize \<le> ?L"
    using cap r by linarith+
  have nat: "nat ?L = msgSize + 16 + ri mod 384" by simp
  show ?thesis
  proof (cases macOff)
    case None
    with L show ?thesis
      unfolding obfs_handshake_def hs_padded_def hs_part_def nat [symmetric]
      by (simp add: slice_ok_def Let_def kObfuscateNonceLength_def
            kObfuscateRandomSuffixMaxLength_def)
  next
    case (Some a)
    with off have "a < msgSize" by simp
    with Some L show ?thesis
      unfolding obfs_handshake_def hs_padded_def hs_part_def nat [symmetric]
      by (simp add: slice_ok_def Let_def kObfuscateNonceLength_def
            kObfuscateRandomSuffixMaxLength_def)
  qed
qed

lemma handshake_length:
  assumes "int msgSize + 16 + 383 \<le> int (length (Data P))"
    and "\<And>off. macOff = Some off \<Longrightarrow> off < msgSize"
  shows "\<exists>Q. then_go (obfs_handshake msgSize macOff ri rb P) (obfs_xor xxh ob) = Inr Q
           \<and> Length Q = int msgSize + 16 + int (ri mod 384)"
proof -
  have r: "ri mod 384 \<le> 383" by simp
  have "16 \<le> Length (hs_padded msgSize macOff ri rb P)"
    "Length (hs_padded msgSize macOff ri rb P) \<le> int (length (Data (hs_padded msgSize macOff ri rb P)))"
    using assms(1) r by (simp_all add: hs_padded_def)
  from obfs_xor_ok [OF this] show ?thesis
    by (simp add: obfs_handshake_eq [OF assms] hs_padded_def)
qed

lemma transport_length:
  assumes "packet_ok P"
  shows "\<exists>Q. then_go (obfs_transport rb P) (obfs_xor xxh ob) = Inr Q
           \<and> Length Q = (if Length P < 256 then Length P + 16 else Length P)"
proof (cases "Length P < 256")
  case True
  let ?P2 = "P\<lparr>Data := slice_fill ((Data P)[1 := 1]) (nat (Length P)) (nat (Length P + 16)) rb,
                Length := Length P + 16\<rparr>"
  from assms True have cap: "Length P + 16 \<le> int (length (Data P))" "0 \<le> Length P"
    by (auto simp: packet_ok_def kMinCapacity_def)
  then have "obfs_transport rb P = Inr (?P2, MessageTransportHeaderSize)"
    using True
    by (simp add: obfs_transport_def slice_ok_def Let_def kObfuscateNonceLength_def
          kObfuscateSuffixAsNonceMinLength_def)
  then show ?thesis
    using True cap obfs_xor_ok [of ?P2 xxh ob MessageTransportHeaderSize] by simp
next
  case False
  with assms have "16 \<le> Length P" "Length P \<le> int (length (Data P))"
    by (auto simp: packet_ok_def)
  with False show ?thesis
    using obfs_xor_ok [of P xxh ob MessageTransportHeaderSize]
    by (simp add: obfs_transport_def kObfuscateSuffixAsNonceMinLength_def)
qed

text \<open>
  C5. On an enabled obfuscator and a packet with the flag \<open>ObfuscateBeforeSend\<close>,
  \<open>Obfuscate\<close> returns a packet whose length lies in \<open>[size + 16, size + 16 + 384)\<close>
  for an Initiation, Response or CookieReply message of fixed size \<open>size\<close> (148, 92,
  64), is the input length plus 16 for a transport message shorter than 256, and is the
  input length for a transport message of length 256 or more.
\<close>

theorem Obfuscate_length:
  assumes "enabled ob" and "PacketFlagObfuscateBeforeSend \<in> Flags P" and "packet_ok P"
  shows "\<exists>Q. Obfuscate xxh ob ri rb P = Inr Q
     \<and> (MessageType P = MessageInitiationType \<longrightarrow>
          int MessageInitiationSize + 16 \<le> Length Q
          \<and> Length Q < int MessageInitiationSize + 16 + 384)
     \<and> (MessageType P = MessageResponseType \<longrightarrow>
          int MessageResponseSize + 16 \<le> Length Q
          \<and> Length Q < int MessageResponseSize + 16 + 384)
     \<and> (MessageType P = MessageCookieReplyType \<longrightarrow>
          int MessageCookieReplySize + 16 \<le> Length Q
          \<and> Length Q < int MessageCookieReplySize + 16 + 384)
     \<and> (MessageType P = MessageTransportType \<and> Length P < 256 \<longrightarrow>
          Length Q = Length P + 16)
     \<and> (MessageType P = MessageTransportType \<and> 256 \<le> Length P \<longrightarrow>
          Length Q = Length P)"
proof -
  have cap: "548 \<le> length (Data P)"
    using assms(3) by (simp add: packet_ok_def kMinCapacity_def)
  have r: "ri mod 384 < 384" by simp
  consider (ini) "MessageType P = MessageInitiationType"
    | (res) "MessageType P = MessageResponseType"
    | (coo) "MessageType P = MessageCookieReplyType"
    | (tra) "MessageType P = MessageTransportType"
    | (other) "MessageType P \<noteq> MessageInitiationType" "MessageType P \<noteq> MessageResponseType"
        "MessageType P \<noteq> MessageCookieReplyType" "MessageType P \<noteq> MessageTransportType"
    by blast
  then show ?thesis
  proof cases
    case ini
    have "int MessageInitiationSize + 16 + 383 \<le> int (length (Data P))"
      using cap by (simp add: MessageInitiationSize_def)
    from handshake_length [OF this, of "Some kMessageInitiationTypeMAC2Offset" ri rb xxh ob]
    obtain Q where "then_go (obfs_handshake MessageInitiationSize
        (Some kMessageInitiationTypeMAC2Offset) ri rb P) (obfs_xor xxh ob) = Inr Q"
      "Length Q = int MessageInitiationSize + 16 + int (ri mod 384)"
      by (auto simp: kMessageInitiationTypeMAC2Offset_def MessageInitiationSize_def)
    with ini assms r show ?thesis
      by (simp add: Obfuscate_def MessageInitiationType_def MessageResponseType_def
            MessageCookieReplyType_def MessageTransportType_def)
  next
    case res
    have "int MessageResponseSize + 16 + 383 \<le> int (length (Data P))"
      using cap by (simp add: MessageResponseSize_def)
    from handshake_length [OF this, of "Some kMessageResponseTypeMAC2Offset" ri rb xxh ob]
    obtain Q where "then_go (obfs_handshake MessageResponseSize
        (Some kMessageResponseTypeMAC2Offset) ri rb P) (obfs_xor xxh ob) = Inr Q"
      "Length Q = int MessageResponseSize + 16 + int (ri mod 384)"
      by (auto simp: kMessageResponseTypeMAC2Offset_def MessageResponseSize_def)
    with res assms r show ?thesis
      by (simp add: Obfuscate_def MessageInitiationType_def MessageResponseType_def
            MessageCookieReplyType_def MessageTransportType_def)
  next
    case coo
    have "int MessageCookieReplySize + 16 + 383 \<le> int (length (Data P))"
      using cap by (simp add: MessageCookieReplySize_def)
    from handshake_length [OF this, of None ri rb xxh ob]
    obtain Q where "then_go (obfs_handshake MessageCookieReplySize None ri rb P)
        (obfs_xor xxh ob) = Inr Q"
      "Length Q = int MessageCookieReplySize + 16 + int (ri mod 384)"
      by auto
    with coo assms r show ?thesis
      by (simp add: Obfuscate_def MessageInitiationType_def MessageResponseType_def
            MessageCookieReplyType_def MessageTransportType_def)
  next
    case tra
    from transport_length [OF assms(3), of rb xxh ob]
    obtain Q where "then_go (obfs_transport rb P) (obfs_xor xxh ob) = Inr Q"
      "Length Q = (if Length P < 256 then Length P + 16 else Length P)"
      by auto
    with tra assms show ?thesis
      by (simp add: Obfuscate_def MessageInitiationType_def MessageResponseType_def
            MessageCookieReplyType_def MessageTransportType_def)
  next
    case other
    with assms show ?thesis by (simp add: Obfuscate_def)
  qed
qed

subsection \<open>The header of an obfuscated packet\<close>

lemma obfs_xor_header:
  assumes len: "16 \<le> Length p" "Length p \<le> int (length (Data p))"
    and n: "2 \<le> n"
    and t: "Data p ! 0 \<le> 4" and m: "Data p ! 1 = 0 \<or> Data p ! 1 = 1"
  shows "\<exists>Q. obfs_xor xxh ob (p, n) = Inr Q \<and> \<not> canonical_header Q
           \<and> Length Q = Length p \<and> Flags Q = Flags p"
proof -
  let ?k = "first_block xxh (userKeyHash ob) (nonce_of p)"
  let ?Q = "p\<lparr>Data := obfs_loop xxh (userKeyHash ob) n 0 (nonce_of p) (Data p)\<rparr>"
  have cap: "0 < length (Data p)" "1 < length (Data p)" using len by linarith+
  have h0: "Data ?Q ! 0 = Data p ! 0 XOR ?k ! 0"
    using n cap by (simp add: nth_obfs_loop obfs_key_def)
  have h1: "Data ?Q ! 1 = Data p ! 1 XOR ?k ! 1"
    using n cap by (simp add: nth_obfs_loop obfs_key_def)
  have "\<not> (Data p ! 0 XOR ?k ! 0 \<le> 4 \<and> Data p ! 1 XOR ?k ! 1 = 0)"
    by (rule masked_header_not_canonical [OF first_block_mask t m])
  then have "\<not> canonical_header ?Q"
    unfolding canonical_header_def h0 h1 by blast
  then show ?thesis
    using obfs_xor_ok [OF len, of xxh ob n] by simp
qed

lemma hs_padded_header:
  assumes cap: "int msgSize + 16 + 383 \<le> int (length (Data P))"
    and part: "2 \<le> hs_part msgSize macOff P"
  shows "Data (hs_padded msgSize macOff ri rb P) ! 0 = Data P ! 0"
    and "Data (hs_padded msgSize macOff ri rb P) ! 1 =
           (if hs_part msgSize macOff P = msgSize then Data P ! 1 else 1)"
proof -
  have len: "0 < length (Data P)" "1 < length (Data P)" using cap by linarith+
  show "Data (hs_padded msgSize macOff ri rb P) ! 0 = Data P ! 0"
    using len part by (simp add: hs_padded_def nth_slice_fill)
  show "Data (hs_padded msgSize macOff ri rb P) ! 1 =
           (if hs_part msgSize macOff P = msgSize then Data P ! 1 else 1)"
    using len part by (simp add: hs_padded_def nth_slice_fill)
qed

lemma handshake_not_canonical:
  assumes cap: "int msgSize + 16 + 383 \<le> int (length (Data P))"
    and off: "\<And>off. macOff = Some off \<Longrightarrow> 2 \<le> off \<and> off < msgSize"
    and size: "2 \<le> msgSize"
    and t: "Data P ! 0 \<le> 4" and m: "Data P ! 1 = 0 \<or> Data P ! 1 = 1"
  shows "\<exists>Q. then_go (obfs_handshake msgSize macOff ri rb P) (obfs_xor xxh ob) = Inr Q
           \<and> \<not> canonical_header Q"
proof -
  let ?p = "hs_padded msgSize macOff ri rb P"
  have part: "2 \<le> hs_part msgSize macOff P"
    using off size by (cases macOff) (auto simp: hs_part_def)
  have r: "ri mod 384 \<le> 383" by simp
  have len: "16 \<le> Length ?p" "Length ?p \<le> int (length (Data ?p))"
    using cap r by (simp_all add: hs_padded_def)
  have t': "Data ?p ! 0 \<le> 4"
    using t hs_padded_header(1) [OF cap part, of ri rb] by simp
  have m': "Data ?p ! 1 = 0 \<or> Data ?p ! 1 = 1"
    using m hs_padded_header(2) [OF cap part, of ri rb] by auto
  have eq: "obfs_handshake msgSize macOff ri rb P = Inr (?p, hs_part msgSize macOff P)"
    using off by (intro obfs_handshake_eq [OF cap]) simp
  from obfs_xor_header [OF len part t' m', of xxh ob] show ?thesis
    unfolding eq by auto
qed

lemma obfs_transport_eq:
  assumes "packet_ok P"
  shows "obfs_transport rb P = Inr (tr_padded rb P, MessageTransportHeaderSize)"
proof (cases "Length P < 256")
  case True
  from assms True have cap: "Length P + 16 \<le> int (length (Data P))" "0 \<le> Length P"
    by (auto simp: packet_ok_def kMinCapacity_def)
  have "nat (Length P + 16) = nat (Length P) + 16" using cap by simp
  then show ?thesis
    using True cap
    by (simp add: obfs_transport_def tr_padded_def slice_ok_def Let_def kObfuscateNonceLength_def
          kObfuscateSuffixAsNonceMinLength_def)
next
  case False
  then show ?thesis
    by (simp add: obfs_transport_def tr_padded_def kObfuscateSuffixAsNonceMinLength_def)
qed

lemma tr_padded_length:
  assumes "packet_ok P"
  shows "16 \<le> Length (tr_padded rb P)"
    and "Length (tr_padded rb P) \<le> int (length (Data (tr_padded rb P)))"
    and "Length (tr_padded rb P) = (if Length P < 256 then Length P + 16 else Length P)"
    and "length (Data (tr_padded rb P)) = length (Data P)"
  using assms by (auto simp: tr_padded_def packet_ok_def kMinCapacity_def)

lemma tr_padded_header:
  assumes "packet_ok P"
  shows "Data (tr_padded rb P) ! 0 = Data P ! 0"
    and "Data (tr_padded rb P) ! 1 = (if Length P < 256 then 1 else Data P ! 1)"
proof -
  from assms have len: "0 < length (Data P)" "1 < length (Data P)" "4 \<le> Length P"
    by (auto simp: packet_ok_def kMinCapacity_def)
  then have n: "2 \<le> nat (Length P)" by linarith
  show "Data (tr_padded rb P) ! 0 = Data P ! 0"
    using len n by (simp add: tr_padded_def nth_slice_fill)
  show "Data (tr_padded rb P) ! 1 = (if Length P < 256 then 1 else Data P ! 1)"
    using len n by (simp add: tr_padded_def nth_slice_fill)
qed

lemma transport_not_canonical:
  assumes ok: "packet_ok P"
    and t: "Data P ! 0 \<le> 4" and m: "Data P ! 1 = 0 \<or> Data P ! 1 = 1"
  shows "\<exists>Q. then_go (obfs_transport rb P) (obfs_xor xxh ob) = Inr Q \<and> \<not> canonical_header Q"
proof -
  let ?p = "tr_padded rb P"
  have t': "Data ?p ! 0 \<le> 4" using t tr_padded_header(1) [OF ok, of rb] by simp
  have m': "Data ?p ! 1 = 0 \<or> Data ?p ! 1 = 1"
    using m tr_padded_header(2) [OF ok, of rb] by auto
  from obfs_xor_header [OF tr_padded_length(1,2) [OF ok] _ t' m',
      of MessageTransportHeaderSize xxh ob]
  show ?thesis
    unfolding obfs_transport_eq [OF ok] by (auto simp: MessageTransportHeaderSize_def)
qed

lemma MessageType_cases:
  assumes "1 \<le> Data P ! 0" and "Data P ! 0 \<le> 4"
  shows "MessageType P = MessageInitiationType \<or> MessageType P = MessageResponseType
       \<or> MessageType P = MessageCookieReplyType \<or> MessageType P = MessageTransportType"
  using byte_le4_cases [OF assms(2)] assms(1)
  by (auto simp: MessageType_def MessageInitiationType_def MessageResponseType_def
        MessageCookieReplyType_def MessageTransportType_def)

text \<open>
  C2. For every hash function, key hash, random padding and nonce, and every packet
  whose first byte is a message type in \<open>{1..4}\<close> and whose second byte is 0 or the marker
  1 (so every canonical frame), the first four bytes of the packet \<open>Obfuscate\<close> returns
  are not a canonical header: it is not the case that byte 0 is in \<open>{1..4}\<close> while
  bytes 1, 2 and 3 are zero. The collision fix of the first key block gives this.
\<close>

theorem obfuscated_header_not_canonical:
  assumes en: "enabled ob" and fl: "PacketFlagObfuscateBeforeSend \<in> Flags P"
    and ok: "packet_ok P"
    and t1: "1 \<le> Data P ! 0" and t4: "Data P ! 0 \<le> 4"
    and m: "Data P ! 1 = 0 \<or> Data P ! 1 = 1"
  shows "\<exists>Q. Obfuscate xxh ob ri rb P = Inr Q \<and> \<not> canonical_header Q"
proof -
  have cap: "548 \<le> length (Data P)"
    using ok by (simp add: packet_ok_def kMinCapacity_def)
  from MessageType_cases [OF t1 t4]
  consider (ini) "MessageType P = MessageInitiationType"
    | (res) "MessageType P = MessageResponseType"
    | (coo) "MessageType P = MessageCookieReplyType"
    | (tra) "MessageType P = MessageTransportType"
    by blast
  then show ?thesis
  proof cases
    case ini
    have "\<exists>Q. then_go (obfs_handshake MessageInitiationSize
        (Some kMessageInitiationTypeMAC2Offset) ri rb P) (obfs_xor xxh ob) = Inr Q
        \<and> \<not> canonical_header Q"
      using cap
      by (intro handshake_not_canonical [OF _ _ _ t4 m])
         (simp_all add: MessageInitiationSize_def kMessageInitiationTypeMAC2Offset_def)
    with ini en fl show ?thesis by (simp add: Obfuscate_def)
  next
    case res
    have "\<exists>Q. then_go (obfs_handshake MessageResponseSize
        (Some kMessageResponseTypeMAC2Offset) ri rb P) (obfs_xor xxh ob) = Inr Q
        \<and> \<not> canonical_header Q"
      using cap
      by (intro handshake_not_canonical [OF _ _ _ t4 m])
         (simp_all add: MessageResponseSize_def kMessageResponseTypeMAC2Offset_def)
    with res en fl show ?thesis
      by (simp add: Obfuscate_def MessageInitiationType_def MessageResponseType_def)
  next
    case coo
    have "\<exists>Q. then_go (obfs_handshake MessageCookieReplySize None ri rb P)
        (obfs_xor xxh ob) = Inr Q \<and> \<not> canonical_header Q"
      using cap
      by (intro handshake_not_canonical [OF _ _ _ t4 m])
         (simp_all add: MessageCookieReplySize_def)
    with coo en fl show ?thesis
      by (simp add: Obfuscate_def MessageInitiationType_def MessageResponseType_def
            MessageCookieReplyType_def)
  next
    case tra
    from transport_not_canonical [OF ok t4 m, of rb xxh ob] tra en fl show ?thesis
      by (simp add: Obfuscate_def MessageInitiationType_def MessageResponseType_def
            MessageCookieReplyType_def MessageTransportType_def)
  qed
qed

subsection \<open>Packets of no known type\<close>

lemma deobfs_first_ok:
  assumes "16 \<le> Length p" and "Length p \<le> int (length (Data p))"
  shows "deobfs_first xxh ob p =
           Inr (nonce_of p @ userKeyHash ob,
                p\<lparr>Data := xor_range (Data p)
                              (first_block xxh (userKeyHash ob) (nonce_of p)) 0 0 8\<rparr>)"
  using read_nonce_ok [OF assms]
  by (simp add: deobfs_first_def first_block_def Let_def kObfuscateXORKeyLength_def)

lemma drop_xor_range: "hi \<le> k \<Longrightarrow> drop k (xor_range data key base lo hi) = drop k data"
  by (intro nth_equalityI) (auto simp: nth_xor_range)

text \<open>
  C10. On an enabled obfuscator and a packet of length at least \<open>MinMessageSize\<close>
  (within its capacity) that fails the pass-through test, the first decoding step
  returns; and when the first byte it reveals is none of the four message types,
  \<open>Deobfuscate\<close> returns a packet that differs from the input in \<open>data[0..8]\<close> at most:
  the bytes from index 8 on, the length and the flags are those of the input, so
  \<open>DeobfuscatedAfterReceived\<close> is not set.
\<close>

theorem Deobfuscate_unknown_type:
  assumes en: "enabled ob" and min: "int MinMessageSize \<le> Length P"
    and cap: "Length P \<le> int (length (Data P))" and nc: "\<not> canonical_header P"
  shows "\<exists>digest P1. deobfs_first xxh ob P = Inr (digest, P1)
     \<and> (MessageType P1 \<notin> {MessageInitiationType, MessageResponseType,
                              MessageCookieReplyType, MessageTransportType} \<longrightarrow>
          (\<exists>R. Deobfuscate xxh ob P = Inr R
             \<and> drop 8 (Data R) = drop 8 (Data P) \<and> length (Data R) = length (Data P)
             \<and> Length R = Length P \<and> Flags R = Flags P))"
proof -
  let ?P1 = "P\<lparr>Data := xor_range (Data P)
                            (first_block xxh (userKeyHash ob) (nonce_of P)) 0 0 8\<rparr>"
  have len: "16 \<le> Length P" using min by (simp add: MinMessageSize_def)
  have first: "deobfs_first xxh ob P = Inr (nonce_of P @ userKeyHash ob, ?P1)"
    by (rule deobfs_first_ok [OF len cap])
  have "Deobfuscate xxh ob P = Inr ?P1"
    if "MessageType ?P1 \<notin> {MessageInitiationType, MessageResponseType,
                               MessageCookieReplyType, MessageTransportType}"
    using that en min nc by (simp add: Deobfuscate_def first)
  then show ?thesis
    unfolding first by (simp add: drop_xor_range)
qed

lemma nonce_of_test_zeros: "nonce_of test_zeros = replicate 16 0"
  by (intro nth_equalityI) (simp_all add: nonce_of_def test_zeros_def kObfuscateNonceLength_def)

lemma first_block_zeros:
  "first_block XXH64 test_userKeyHash (replicate 16 0) = [39, 215, 125, 34, 73, 248, 133, 127]"
  by code_simp

theorem Deobfuscate_unknown_type_witness:
  "enabled test_obfuscator \<and> int MinMessageSize \<le> Length test_zeros
   \<and> Length test_zeros \<le> int (length (Data test_zeros)) \<and> \<not> canonical_header test_zeros
   \<and> (\<exists>digest P1 R. deobfs_first XXH64 test_obfuscator test_zeros = Inr (digest, P1)
        \<and> MessageType P1 = 39
        \<and> Deobfuscate XXH64 test_obfuscator test_zeros = Inr R
        \<and> drop 8 (Data R) = drop 8 (Data test_zeros) \<and> Length R = 32 \<and> Flags R = {})"
proof -
  have en: "enabled test_obfuscator" by (simp add: test_obfuscator_def)
  have min: "int MinMessageSize \<le> Length test_zeros"
    by (simp add: MinMessageSize_def test_zeros_def)
  have cap: "Length test_zeros \<le> int (length (Data test_zeros))"
    by (simp add: test_zeros_def)
  have nc: "\<not> canonical_header test_zeros"
    by (simp add: canonical_header_def test_zeros_def)
  have len: "16 \<le> Length test_zeros" by (simp add: test_zeros_def)
  have ty: "MessageType (test_zeros\<lparr>Data := xor_range (Data test_zeros)
              (first_block XXH64 (userKeyHash test_obfuscator) (nonce_of test_zeros)) 0 0 8\<rparr>) = 39"
    by (simp add: MessageType_def nth_xor_range nonce_of_test_zeros test_obfuscator_def
          first_block_zeros) (simp add: test_zeros_def)
  from Deobfuscate_unknown_type [OF en min cap nc, of XXH64] ty en min cap nc
  show ?thesis
    unfolding deobfs_first_ok [OF len cap]
    by (auto simp: MessageInitiationType_def MessageResponseType_def
          MessageCookieReplyType_def MessageTransportType_def test_zeros_def)
qed

subsection \<open>The round trip\<close>

lemma wire_simps [simp]:
  "Length (wire xxh ob p n) = Length p"
  "Flags (wire xxh ob p n) = Flags p"
  "length (Data (wire xxh ob p n)) = length (Data p)"
  by (simp_all add: wire_def)

lemma unmasked_simps [simp]:
  "Length (unmasked xxh ob p n) = Length p"
  "Flags (unmasked xxh ob p n) = Flags p"
  "length (Data (unmasked xxh ob p n)) = length (Data p)"
  by (simp_all add: unmasked_def)

lemma obfs_xor_wire:
  assumes "16 \<le> Length p" and "Length p \<le> int (length (Data p))"
  shows "obfs_xor xxh ob (p, n) = Inr (wire xxh ob p n)"
  using obfs_xor_ok [OF assms] by (simp add: wire_def)

lemma nth_wire:
  "Data (wire xxh ob p n) ! m =
     (if m < n \<and> m < length (Data p)
      then Data p ! m XOR obfs_key xxh (userKeyHash ob) (nonce_of p) m else Data p ! m)"
  by (simp add: wire_def nth_obfs_loop)

lemma nonce_of_wire:
  assumes "int n + 16 \<le> Length p"
  shows "nonce_of (wire xxh ob p n) = nonce_of p"
proof -
  have "n \<le> nat (Length p - 16)" using assms by linarith
  then show ?thesis
    by (simp add: nonce_of_def nth_wire kObfuscateNonceLength_def)
qed

lemma deobfs_first_wire:
  assumes "int n + 16 \<le> Length p" and "Length p \<le> int (length (Data p))"
  shows "deobfs_first xxh ob (wire xxh ob p n) =
           Inr (nonce_of p @ userKeyHash ob, unmasked xxh ob p n)"
proof -
  have "16 \<le> Length (wire xxh ob p n)"
    "Length (wire xxh ob p n) \<le> int (length (Data (wire xxh ob p n)))"
    using assms by simp_all
  from deobfs_first_ok [OF this, of xxh ob] show ?thesis
    by (simp add: nonce_of_wire [OF assms(1)]) (simp add: wire_def unmasked_def)
qed

lemma nth_unmasked:
  assumes "8 \<le> n"
  shows "Data (unmasked xxh ob p n) ! m =
     (if 8 \<le> m \<and> m < n \<and> m < length (Data p)
      then Data p ! m XOR keystream xxh (userKeyHash ob) (nonce_of p @ userKeyHash ob) (m - 8)
      else Data p ! m)"
  using nth_unmask [OF assms] by (simp add: unmasked_def)

lemma nth_rest:
  assumes n: "8 \<le> n"
    and len: "length (Data p3) = length (Data p)"
    and same: "\<And>k. 8 \<le> k \<Longrightarrow> k < n \<Longrightarrow> Data p3 ! k = Data (unmasked xxh ob p n) ! k"
  shows "Data (deobfs_rest xxh ob (nonce_of p @ userKeyHash ob) (p3, n)) ! m =
     (if 8 \<le> m \<and> m < n \<and> m < length (Data p) then Data p ! m else Data p3 ! m)"
proof -
  have "deobfs_loop xxh (userKeyHash ob) n 8 (nonce_of p @ userKeyHash ob) (Data p3) ! m =
     (if 8 \<le> m \<and> m < n \<and> m < length (Data p) then Data p ! m else Data p3 ! m)"
    using same by (intro nth_decoded [OF n len]) (simp add: unmasked_def)
  then show ?thesis
    by (simp add: deobfs_rest_def kObfuscateXORKeyLength_def)
qed

lemma deobfs_rest_simps [simp]:
  "Length (deobfs_rest xxh ob d (p, n)) = Length p"
  "Flags (deobfs_rest xxh ob d (p, n)) = insert PacketFlagDeobfuscatedAfterReceived (Flags p)"
  "length (Data (deobfs_rest xxh ob d (p, n))) = length (Data p)"
  by (simp_all add: deobfs_rest_def)

lemma isAllZero_nth:
  assumes "isAllZero (take k (drop off data))"
    and "off \<le> m" and "m < off + k" and "m < length data"
  shows "data ! m = 0"
proof -
  have "m - off < length (take k (drop off data))" using assms(2-4) by auto
  then have "take k (drop off data) ! (m - off) \<in> set (take k (drop off data))"
    by (rule nth_mem)
  moreover have "take k (drop off data) ! (m - off) = data ! m"
    using assms(2-4) by simp
  ultimately show ?thesis using assms(1) by (simp add: isAllZero_iff)
qed

lemma hs_part_cases:
  assumes "\<And>off. macOff = Some off \<Longrightarrow> off < msgSize"
  shows "hs_part msgSize macOff P = msgSize
       \<or> (macOff = Some (hs_part msgSize macOff P)
           \<and> isAllZero (take (msgSize - hs_part msgSize macOff P)
                           (drop (hs_part msgSize macOff P) (Data P))))"
  using assms by (cases macOff) (auto simp: hs_part_def)

lemma hs_part_Some:
  "hs_part msgSize (Some off) P = msgSize \<Longrightarrow> off < msgSize \<Longrightarrow>
     \<not> isAllZero (take (msgSize - off) (drop off (Data P)))"
  by (auto simp: hs_part_def split: if_splits)

lemma nth_hs_padded:
  assumes "m < hs_part msgSize macOff P" and "m < length (Data P)"
  shows "Data (hs_padded msgSize macOff ri rb P) ! m =
     (if m = 1 \<and> hs_part msgSize macOff P \<noteq> msgSize then 1 else Data P ! m)"
  using assms by (simp add: hs_padded_def nth_slice_fill nth_list_update)

lemma hs_padded_simps [simp]:
  "Length (hs_padded msgSize macOff ri rb P) = int msgSize + 16 + int (ri mod 384)"
  "Flags (hs_padded msgSize macOff ri rb P) = Flags P"
  "length (Data (hs_padded msgSize macOff ri rb P)) = length (Data P)"
  by (simp_all add: hs_padded_def)

lemma hs_cleared_simps [simp]:
  "Length (hs_cleared msgSize n U) = int msgSize"
  "Flags (hs_cleared msgSize n U) = Flags U"
  "length (Data (hs_cleared msgSize n U)) = length (Data U)"
  by (simp_all add: hs_cleared_def)

lemma deobfs_handshake_unmasked:
  assumes cap: "int msgSize + 16 + 383 \<le> int (length (Data P))"
    and off: "\<And>off. macOff = Some off \<Longrightarrow> 8 \<le> off \<and> off < msgSize"
    and size: "16 \<le> msgSize"
    and m: "Data P ! 1 = 0"
  shows "deobfs_handshake msgSize macOff
           (unmasked xxh ob (hs_padded msgSize macOff ri rb P) (hs_part msgSize macOff P)) =
         (hs_cleared msgSize (hs_part msgSize macOff P)
            (unmasked xxh ob (hs_padded msgSize macOff ri rb P) (hs_part msgSize macOff P)),
          hs_part msgSize macOff P)"
proof -
  let ?n = "hs_part msgSize macOff P"
  let ?U = "unmasked xxh ob (hs_padded msgSize macOff ri rb P) ?n"
  have n8: "8 \<le> ?n" using off size by (cases macOff) (auto simp: hs_part_def)
  have len: "1 < length (Data P)" using cap by linarith
  have "Data ?U ! 1 = Data (hs_padded msgSize macOff ri rb P) ! 1"
    by (simp add: nth_unmasked [OF n8])
  also have "\<dots> = (if ?n \<noteq> msgSize then 1 else 0)"
    using n8 len m by (subst nth_hs_padded) auto
  finally have u1: "Data ?U ! 1 = (if ?n \<noteq> msgSize then 1 else 0)" .
  show ?thesis
  proof (cases macOff)
    case None
    then show ?thesis by (simp add: deobfs_handshake_def hs_cleared_def hs_part_def)
  next
    case (Some a)
    with off have a: "a < msgSize" by simp
    show ?thesis
    proof (cases "?n = msgSize")
      case True
      with u1 Some show ?thesis
        by (simp add: deobfs_handshake_def hs_cleared_def Let_def)
    next
      case False
      with Some have "?n = a" by (auto simp: hs_part_def split: if_splits)
      with u1 Some False show ?thesis
        by (simp add: deobfs_handshake_def hs_cleared_def Let_def)
    qed
  qed
qed

lemma handshake_restored:
  assumes cap: "int msgSize + 16 + 383 \<le> int (length (Data P))"
    and off: "\<And>off. macOff = Some off \<Longrightarrow> 8 \<le> off \<and> off < msgSize"
    and size: "16 \<le> msgSize"
    and m: "Data P ! 1 = 0"
    and i: "i < msgSize"
  shows "Data (deobfs_rest xxh ob
           (nonce_of (hs_padded msgSize macOff ri rb P) @ userKeyHash ob)
           (hs_cleared msgSize (hs_part msgSize macOff P)
              (unmasked xxh ob (hs_padded msgSize macOff ri rb P) (hs_part msgSize macOff P)),
            hs_part msgSize macOff P)) ! i = Data P ! i"
proof -
  let ?n = "hs_part msgSize macOff P"
  let ?p = "hs_padded msgSize macOff ri rb P"
  let ?U = "unmasked xxh ob ?p ?n"
  let ?C = "hs_cleared msgSize ?n ?U"
  have n8: "8 \<le> ?n" using off size by (cases macOff) (auto simp: hs_part_def)
  have nle: "?n \<le> msgSize" using off by (intro hs_part_le) simp
  have len: "msgSize \<le> length (Data P)" using cap by linarith
  have il: "i < length (Data P)" using i len by simp
  have same: "Data ?C ! k = Data ?U ! k" if "8 \<le> k" "k < ?n" for k
    using that nle len by (simp add: hs_cleared_def nth_memset)
  have rest: "Data (deobfs_rest xxh ob (nonce_of ?p @ userKeyHash ob) (?C, ?n)) ! i =
     (if 8 \<le> i \<and> i < ?n \<and> i < length (Data ?p) then Data ?p ! i else Data ?C ! i)"
    by (rule nth_rest [OF n8 _ same]) simp_all
  show ?thesis
  proof (cases "8 \<le> i \<and> i < ?n")
    case True
    then show ?thesis
      unfolding rest using il by (simp add: nth_hs_padded)
  next
    case False
    note outside = this
    show ?thesis
    proof (cases "?n = msgSize")
      case True
      with outside i have "i < 8" by simp
      then have "Data ?C ! i = Data P ! i"
        using True n8 il
        by (simp add: hs_cleared_def nth_unmasked nth_hs_padded)
      then show ?thesis
        unfolding rest using outside by auto
    next
      case False
      with hs_part_cases [of macOff msgSize P] off
      have zero: "isAllZero (take (msgSize - ?n) (drop ?n (Data P)))" by auto
      show ?thesis
      proof (cases "i < 8")
        case True
        moreover have "1 < length (Data P)" using len size by simp
        ultimately have "Data ?C ! i = Data P ! i"
          using False n8 il m
          by (auto simp: hs_cleared_def nth_memset nth_list_update nth_unmasked
                nth_hs_padded)
        then show ?thesis
          unfolding rest using outside by auto
      next
        case False
        with outside have ge: "?n \<le> i" by simp
        have "Data P ! i = 0"
          using ge i il by (intro isAllZero_nth [OF zero]) simp_all
        then have "Data ?C ! i = Data P ! i"
          using \<open>?n \<noteq> msgSize\<close> ge i il
          by (simp add: hs_cleared_def nth_memset)
        then show ?thesis
          unfolding rest using outside by auto
      qed
    qed
  qed
qed

lemma wire_not_canonical:
  assumes cap: "1 < length (Data p)" and n: "2 \<le> n"
    and t: "Data p ! 0 \<le> 4" and m: "Data p ! 1 = 0 \<or> Data p ! 1 = 1"
  shows "\<not> canonical_header (wire xxh ob p n)"
proof -
  let ?k = "first_block xxh (userKeyHash ob) (nonce_of p)"
  have cap0: "0 < length (Data p)" using cap by (cases "Data p") auto
  have h0: "Data (wire xxh ob p n) ! 0 = Data p ! 0 XOR ?k ! 0"
    using n cap0 by (simp add: nth_wire obfs_key_def)
  have h1: "Data (wire xxh ob p n) ! 1 = Data p ! 1 XOR ?k ! 1"
    using n cap by (simp add: nth_wire obfs_key_def)
  have "\<not> (Data p ! 0 XOR ?k ! 0 \<le> 4 \<and> Data p ! 1 XOR ?k ! 1 = 0)"
    by (rule masked_header_not_canonical [OF first_block_mask t m])
  then show ?thesis
    unfolding canonical_header_def h0 h1 by blast
qed

lemma MessageType_unmasked:
  "8 \<le> n \<Longrightarrow> MessageType (unmasked xxh ob p n) = MessageType p"
  by (simp add: MessageType_def nth_unmasked)

lemma Deobfuscate_wire:
  assumes en: "enabled ob"
    and min: "int MinMessageSize \<le> Length p"
    and nonce: "int n + 16 \<le> Length p" and cap: "Length p \<le> int (length (Data p))"
    and n: "8 \<le> n"
    and t: "Data p ! 0 \<le> 4" and m: "Data p ! 1 = 0 \<or> Data p ! 1 = 1"
  shows "Deobfuscate xxh ob (wire xxh ob p n) =
     (let d = nonce_of p @ userKeyHash ob; U = unmasked xxh ob p n in
      if MessageType p = MessageInitiationType then
        Inr (deobfs_rest xxh ob d
               (deobfs_handshake MessageInitiationSize (Some kMessageInitiationTypeMAC2Offset) U))
      else if MessageType p = MessageResponseType then
        Inr (deobfs_rest xxh ob d
               (deobfs_handshake MessageResponseSize (Some kMessageResponseTypeMAC2Offset) U))
      else if MessageType p = MessageCookieReplyType then
        Inr (deobfs_rest xxh ob d (deobfs_handshake MessageCookieReplySize None U))
      else if MessageType p = MessageTransportType then
        Inr (deobfs_rest xxh ob d (deobfs_transport U))
      else Inr U)"
proof -
  have len: "1 < length (Data p)" using nonce cap n by linarith
  have nc: "\<not> canonical_header (wire xxh ob p n)"
    using n by (intro wire_not_canonical [OF len _ t m]) simp
  show ?thesis
    using en min nc
    by (simp add: Deobfuscate_def deobfs_first_wire [OF nonce cap] MessageType_unmasked [OF n]
          Let_def)
qed

lemma nth_tr_padded:
  assumes "int m < Length P" and "Length P \<le> int (length (Data P))"
  shows "Data (tr_padded rb P) ! m = (if m = 1 \<and> Length P < 256 then 1 else Data P ! m)"
proof -
  have "m < nat (Length P)" "m < length (Data P)" using assms by linarith+
  then show ?thesis
    by (simp add: tr_padded_def nth_slice_fill nth_list_update)
qed

lemma deobfs_transport_unmasked:
  assumes ok: "packet_ok P" and m: "Data P ! 1 = 0"
  shows "deobfs_transport (unmasked xxh ob (tr_padded rb P) 16) =
           (tr_cleared (Length P < 256) (unmasked xxh ob (tr_padded rb P) 16), 16)"
proof -
  have "int 1 < Length P" "Length P \<le> int (length (Data P))"
    using ok by (auto simp: packet_ok_def)
  from nth_tr_padded [OF this, of rb] m
  have "Data (unmasked xxh ob (tr_padded rb P) 16) ! 1 = (if Length P < 256 then 1 else 0)"
    by (simp add: nth_unmasked)
  then show ?thesis
    by (simp add: deobfs_transport_def tr_cleared_def MessageTransportHeaderSize_def
          kObfuscateNonceLength_def)
qed

lemma transport_restored:
  assumes ok: "packet_ok P" and min: "16 \<le> Length P" and m: "Data P ! 1 = 0"
    and i: "int i < Length P"
  shows "Data (deobfs_rest xxh ob (nonce_of (tr_padded rb P) @ userKeyHash ob)
                 (tr_cleared (Length P < 256) (unmasked xxh ob (tr_padded rb P) 16), 16)) ! i
         = Data P ! i"
proof -
  let ?p = "tr_padded rb P"
  let ?U = "unmasked xxh ob ?p 16"
  let ?C = "tr_cleared (Length P < 256) ?U"
  have cap: "Length P \<le> int (length (Data P))" using ok by (simp add: packet_ok_def)
  have il: "i < length (Data P)" using i cap by linarith
  have len1: "1 < length (Data P)" using min cap by linarith
  have lenC: "length (Data ?C) = length (Data ?p)" by (simp add: tr_cleared_def)
  have same: "Data ?C ! k = Data ?U ! k" if "8 \<le> k" "k < 16" for k
    using that by (simp add: tr_cleared_def)
  have rest: "Data (deobfs_rest xxh ob (nonce_of ?p @ userKeyHash ob) (?C, 16)) ! i =
     (if 8 \<le> i \<and> i < 16 \<and> i < length (Data ?p) then Data ?p ! i else Data ?C ! i)"
    by (rule nth_rest [OF _ lenC same]) simp_all
  have p: "Data ?p ! i = (if i = 1 \<and> Length P < 256 then 1 else Data P ! i)"
    by (rule nth_tr_padded [OF i cap])
  show ?thesis
  proof (cases "8 \<le> i \<and> i < 16")
    case True
    then show ?thesis unfolding rest using p il tr_padded_length(4) [OF ok, of rb] by auto
  next
    case False
    have "Data ?U ! i = Data ?p ! i"
      using False by (auto simp: nth_unmasked)
    then have "Data ?C ! i = Data P ! i"
      using p m len1 tr_padded_length(4) [OF ok, of rb]
      by (auto simp: tr_cleared_def nth_list_update)
    then show ?thesis unfolding rest using False by auto
  qed
qed

lemma handshake_roundtrip:
  assumes en: "enabled ob"
    and cap: "int msgSize + 16 + 383 \<le> int (length (Data P))"
    and off: "\<And>off. macOff = Some off \<Longrightarrow> 8 \<le> off \<and> off < msgSize"
    and size: "16 \<le> msgSize"
    and t: "Data P ! 0 \<le> 4" and m: "Data P ! 1 = 0"
  shows "then_go (obfs_handshake msgSize macOff ri rb P) (obfs_xor xxh ob) =
           Inr (wire xxh ob (hs_padded msgSize macOff ri rb P) (hs_part msgSize macOff P))"
    and "Deobfuscate xxh ob (wire xxh ob (hs_padded msgSize macOff ri rb P) (hs_part msgSize macOff P)) =
     (let d = nonce_of (hs_padded msgSize macOff ri rb P) @ userKeyHash ob;
          U = unmasked xxh ob (hs_padded msgSize macOff ri rb P) (hs_part msgSize macOff P) in
      if MessageType P = MessageInitiationType then
        Inr (deobfs_rest xxh ob d
               (deobfs_handshake MessageInitiationSize (Some kMessageInitiationTypeMAC2Offset) U))
      else if MessageType P = MessageResponseType then
        Inr (deobfs_rest xxh ob d
               (deobfs_handshake MessageResponseSize (Some kMessageResponseTypeMAC2Offset) U))
      else if MessageType P = MessageCookieReplyType then
        Inr (deobfs_rest xxh ob d (deobfs_handshake MessageCookieReplySize None U))
      else if MessageType P = MessageTransportType then
        Inr (deobfs_rest xxh ob d (deobfs_transport U))
      else Inr U)"
    and "\<exists>R. deobfs_rest xxh ob (nonce_of (hs_padded msgSize macOff ri rb P) @ userKeyHash ob)
           (deobfs_handshake msgSize macOff
              (unmasked xxh ob (hs_padded msgSize macOff ri rb P) (hs_part msgSize macOff P))) = R
         \<and> Length R = int msgSize \<and> take msgSize (Data R) = take msgSize (Data P)
         \<and> length (Data R) = length (Data P)
         \<and> Flags R = insert PacketFlagDeobfuscatedAfterReceived (Flags P)"
proof -
  let ?p = "hs_padded msgSize macOff ri rb P"
  let ?n = "hs_part msgSize macOff P"
  have off': "\<And>off. macOff = Some off \<Longrightarrow> off < msgSize" using off by simp
  have n8: "8 \<le> ?n" using off size by (cases macOff) (auto simp: hs_part_def)
  have nle: "?n \<le> msgSize" by (rule hs_part_le [OF off'])
  have r: "ri mod 384 \<le> 383" by simp
  have lenp: "16 \<le> Length ?p" "Length ?p \<le> int (length (Data ?p))"
    "int MinMessageSize \<le> Length ?p" "int ?n + 16 \<le> Length ?p"
    using cap r size nle by (simp_all add: MinMessageSize_def)
  have part2: "2 \<le> ?n" using n8 by simp
  have t': "Data ?p ! 0 \<le> 4"
    using t hs_padded_header(1) [OF cap part2, of ri rb] by simp
  have m': "Data ?p ! 1 = 0 \<or> Data ?p ! 1 = 1"
    using m hs_padded_header(2) [OF cap part2, of ri rb] by auto
  have ty: "MessageType ?p = MessageType P"
    using hs_padded_header(1) [OF cap part2, of ri rb] by (simp add: MessageType_def)
  show "then_go (obfs_handshake msgSize macOff ri rb P) (obfs_xor xxh ob) = Inr (wire xxh ob ?p ?n)"
    by (simp add: obfs_handshake_eq [OF cap off'] obfs_xor_wire [OF lenp(1,2)])
  show "Deobfuscate xxh ob (wire xxh ob ?p ?n) =
     (let d = nonce_of ?p @ userKeyHash ob; U = unmasked xxh ob ?p ?n in
      if MessageType P = MessageInitiationType then
        Inr (deobfs_rest xxh ob d
               (deobfs_handshake MessageInitiationSize (Some kMessageInitiationTypeMAC2Offset) U))
      else if MessageType P = MessageResponseType then
        Inr (deobfs_rest xxh ob d
               (deobfs_handshake MessageResponseSize (Some kMessageResponseTypeMAC2Offset) U))
      else if MessageType P = MessageCookieReplyType then
        Inr (deobfs_rest xxh ob d (deobfs_handshake MessageCookieReplySize None U))
      else if MessageType P = MessageTransportType then
        Inr (deobfs_rest xxh ob d (deobfs_transport U))
      else Inr U)"
    using Deobfuscate_wire [OF en lenp(3) lenp(4) lenp(2) n8 t' m', of xxh]
    unfolding ty .
  have len: "msgSize \<le> length (Data P)" using cap by linarith
  have "take msgSize (Data (deobfs_rest xxh ob (nonce_of ?p @ userKeyHash ob)
           (hs_cleared msgSize ?n (unmasked xxh ob ?p ?n), ?n))) = take msgSize (Data P)"
    using len
    by (intro nth_take_lemma) (simp_all add: handshake_restored [OF cap off size m])
  then show "\<exists>R. deobfs_rest xxh ob (nonce_of ?p @ userKeyHash ob)
           (deobfs_handshake msgSize macOff (unmasked xxh ob ?p ?n)) = R
         \<and> Length R = int msgSize \<and> take msgSize (Data R) = take msgSize (Data P)
         \<and> length (Data R) = length (Data P)
         \<and> Flags R = insert PacketFlagDeobfuscatedAfterReceived (Flags P)"
    by (simp add: deobfs_handshake_unmasked [OF cap off size m])
qed

lemma transport_roundtrip:
  assumes en: "enabled ob" and ok: "packet_ok P" and min: "int MinMessageSize \<le> Length P"
    and t: "MessageType P = MessageTransportType" and m: "Data P ! 1 = 0"
  shows "then_go (obfs_transport rb P) (obfs_xor xxh ob) = Inr (wire xxh ob (tr_padded rb P) 16)"
    and "\<exists>R. Deobfuscate xxh ob (wire xxh ob (tr_padded rb P) 16) = Inr R
         \<and> Length R = Length P
         \<and> take (nat (Length P)) (Data R) = take (nat (Length P)) (Data P)
         \<and> length (Data R) = length (Data P)
         \<and> Flags R = insert PacketFlagDeobfuscatedAfterReceived (Flags P)"
proof -
  let ?p = "tr_padded rb P"
  let ?U = "unmasked xxh ob ?p 16"
  let ?R = "deobfs_rest xxh ob (nonce_of ?p @ userKeyHash ob) (tr_cleared (Length P < 256) ?U, 16)"
  have min16: "16 \<le> Length P" "32 \<le> Length P" using min by (simp_all add: MinMessageSize_def)
  have cap: "Length P \<le> int (length (Data P))" using ok by (simp add: packet_ok_def)
  note pl = tr_padded_length [OF ok, of rb]
  have lenp: "int MinMessageSize \<le> Length ?p" "int (16::nat) + 16 \<le> Length ?p"
    using pl(3) min16 by (auto simp: MinMessageSize_def)
  have t4: "Data P ! 0 = 4"
    using t by (simp add: MessageType_def MessageTransportType_def word_uint_eq_iff)
  have t': "Data ?p ! 0 \<le> 4" using t4 tr_padded_header(1) [OF ok, of rb] by simp
  have m': "Data ?p ! 1 = 0 \<or> Data ?p ! 1 = 1"
    using m tr_padded_header(2) [OF ok, of rb] by auto
  have ty: "MessageType ?p = MessageTransportType"
    using t tr_padded_header(1) [OF ok, of rb] by (simp add: MessageType_def)
  show "then_go (obfs_transport rb P) (obfs_xor xxh ob) = Inr (wire xxh ob ?p 16)"
    by (simp add: obfs_transport_eq [OF ok] obfs_xor_wire [OF pl(1,2)]
          MessageTransportHeaderSize_def)
  have D: "Deobfuscate xxh ob (wire xxh ob ?p 16) = Inr ?R"
    using Deobfuscate_wire [OF en lenp(1) lenp(2) pl(2) _ t' m', of xxh]
    unfolding ty
    by (simp add: MessageInitiationType_def MessageResponseType_def MessageCookieReplyType_def
          MessageTransportType_def deobfs_transport_unmasked [OF ok m])
  have L: "Length ?R = Length P"
    using pl(3) by (simp add: tr_cleared_def)
  have len: "length (Data ?R) = length (Data P)"
    using pl(4) by (simp add: tr_cleared_def)
  have F: "Flags ?R = insert PacketFlagDeobfuscatedAfterReceived (Flags P)"
    by (simp add: tr_cleared_def tr_padded_def)
  have "take (nat (Length P)) (Data ?R) = take (nat (Length P)) (Data P)"
  proof (rule nth_take_lemma)
    show "nat (Length P) \<le> length (Data ?R)" using cap len by linarith
    show "nat (Length P) \<le> length (Data P)" using cap by linarith
    show "i < nat (Length P) \<longrightarrow> Data ?R ! i = Data P ! i" for i
    proof
      assume "i < nat (Length P)"
      then have "int i < Length P" by linarith
      then show "Data ?R ! i = Data P ! i"
        by (rule transport_restored [OF ok min16(1) m])
    qed
  qed
  with D L len F show "\<exists>R. Deobfuscate xxh ob (wire xxh ob ?p 16) = Inr R
         \<and> Length R = Length P
         \<and> take (nat (Length P)) (Data R) = take (nat (Length P)) (Data P)
         \<and> length (Data R) = length (Data P)
         \<and> Flags R = insert PacketFlagDeobfuscatedAfterReceived (Flags P)"
    by simp
qed

lemma canonical_header_bytes:
  assumes "canonical_header P"
  shows "Data P ! 0 \<le> 4" and "Data P ! 1 = 0" and "1 \<le> Data P ! 0"
  using assms by (simp_all add: canonical_header_def)

lemma Initialize_enabled: "userKey \<noteq> [] \<Longrightarrow> enabled (Initialize sha256 ob0 userKey)"
  by (simp add: Initialize_def)

lemma roundtrip_enabled:
  assumes en: "enabled ob" and ok: "packet_ok P" and fr: "wireguard_frame P"
  shows "\<exists>Q R. Obfuscate xxh ob ri rb P = Inr Q \<and> Deobfuscate xxh ob Q = Inr R
           \<and> Length R = Length P
           \<and> take (nat (Length P)) (Data R) = take (nat (Length P)) (Data P)
           \<and> length (Data R) = length (Data P)"
proof (cases "PacketFlagObfuscateBeforeSend \<in> Flags P")
  case False
  with fr show ?thesis
    by (simp add: Obfuscate_def Deobfuscate_def wireguard_frame_def)
next
  case True
  from fr have can: "canonical_header P" by (simp add: wireguard_frame_def)
  note hb = canonical_header_bytes [OF can]
  have cap: "548 \<le> length (Data P)"
    using ok by (simp add: packet_ok_def kMinCapacity_def)
  from MessageType_cases [OF hb(3) hb(1)]
  consider (ini) "MessageType P = MessageInitiationType"
    | (res) "MessageType P = MessageResponseType"
      "MessageType P \<noteq> MessageInitiationType"
    | (coo) "MessageType P = MessageCookieReplyType"
      "MessageType P \<noteq> MessageInitiationType" "MessageType P \<noteq> MessageResponseType"
    | (tra) "MessageType P = MessageTransportType"
      "MessageType P \<noteq> MessageInitiationType" "MessageType P \<noteq> MessageResponseType"
      "MessageType P \<noteq> MessageCookieReplyType"
    by blast
  then show ?thesis
  proof cases
    case ini
    have L: "Length P = int MessageInitiationSize"
      using fr ini by (simp add: wireguard_frame_def)
    have c: "int MessageInitiationSize + 16 + 383 \<le> int (length (Data P))"
      using cap by (simp add: MessageInitiationSize_def)
    have o: "\<And>off. Some kMessageInitiationTypeMAC2Offset = Some off \<Longrightarrow>
        8 \<le> off \<and> off < MessageInitiationSize"
      by (auto simp: kMessageInitiationTypeMAC2Offset_def MessageInitiationSize_def)
    have s: "16 \<le> MessageInitiationSize" by (simp add: MessageInitiationSize_def)
    note rt = handshake_roundtrip [where macOff = "Some kMessageInitiationTypeMAC2Offset" and ri = ri
        and rb = rb and xxh = xxh, OF en c o s hb(1) hb(2)]
    from rt(3) show ?thesis
      using en True ini L by (simp add: Obfuscate_def rt(1) rt(2))
  next
    case res
    have L: "Length P = int MessageResponseSize"
      using fr res by (simp add: wireguard_frame_def)
    have c: "int MessageResponseSize + 16 + 383 \<le> int (length (Data P))"
      using cap by (simp add: MessageResponseSize_def)
    have o: "\<And>off. Some kMessageResponseTypeMAC2Offset = Some off \<Longrightarrow>
        8 \<le> off \<and> off < MessageResponseSize"
      by (auto simp: kMessageResponseTypeMAC2Offset_def MessageResponseSize_def)
    have s: "16 \<le> MessageResponseSize" by (simp add: MessageResponseSize_def)
    note rt = handshake_roundtrip [where macOff = "Some kMessageResponseTypeMAC2Offset" and ri = ri and rb = rb
        and xxh = xxh, OF en c o s hb(1) hb(2)]
    from rt(3) show ?thesis
      using en True res L by (simp add: Obfuscate_def rt(1) rt(2))
  next
    case coo
    have L: "Length P = int MessageCookieReplySize"
      using fr coo by (simp add: wireguard_frame_def)
    have c: "int MessageCookieReplySize + 16 + 383 \<le> int (length (Data P))"
      using cap by (simp add: MessageCookieReplySize_def)
    have o: "\<And>off. (None :: nat option) = Some off \<Longrightarrow>
        8 \<le> off \<and> off < MessageCookieReplySize"
      by simp
    have s: "16 \<le> MessageCookieReplySize" by (simp add: MessageCookieReplySize_def)
    note rt = handshake_roundtrip [where macOff = "None :: nat option" and ri = ri and rb = rb
        and xxh = xxh, OF en c o s hb(1) hb(2)]
    from rt(3) show ?thesis
      using en True coo L by (simp add: Obfuscate_def rt(1) rt(2))
  next
    case tra
    have min: "int MinMessageSize \<le> Length P"
      using fr tra by (simp add: wireguard_frame_def)
    note rt = transport_roundtrip [OF en ok min tra(1) hb(2), where rb=rb and xxh=xxh]
    from rt(2) show ?thesis
      using en True tra by (auto simp: Obfuscate_def rt(1))
  qed
qed

text \<open>
  C1. For every WireGuard frame \<open>P\<close> (canonical header, the length of its message
  kind), every non-empty user key, every hash function and every random padding and
  nonce, \<open>Obfuscate\<close> returns a packet on which \<open>Deobfuscate\<close> returns a packet of the
  length of \<open>P\<close> whose first \<open>length\<close> bytes are those of \<open>P\<close>: the marker in \<open>data[1]\<close>
  is cleared, a zero MAC2 field is zero again, and the random suffix and the nonce lie
  beyond the length.
\<close>

theorem roundtrip_canonical:
  assumes key: "userKey \<noteq> []" and ok: "packet_ok P" and fr: "wireguard_frame P"
  shows "\<exists>Q R. Obfuscate xxh (Initialize sha256 ob0 userKey) ri rb P = Inr Q
           \<and> Deobfuscate xxh (Initialize sha256 ob0 userKey) Q = Inr R
           \<and> Length R = Length P
           \<and> take (nat (Length P)) (Data R) = take (nat (Length P)) (Data P)
           \<and> length (Data R) = length (Data P)
           \<and> Data R ! 1 = 0"
proof -
  from roundtrip_enabled [OF Initialize_enabled [OF key] ok fr, where xxh=xxh and ri=ri and rb=rb
      and ?sha256.1=sha256 and ?ob0.1=ob0]
  obtain Q R where QR: "Obfuscate xxh (Initialize sha256 ob0 userKey) ri rb P = Inr Q"
    "Deobfuscate xxh (Initialize sha256 ob0 userKey) Q = Inr R"
    "Length R = Length P"
    "take (nat (Length P)) (Data R) = take (nat (Length P)) (Data P)"
    "length (Data R) = length (Data P)"
    by blast
  have "1 < nat (Length P)" using ok by (simp add: packet_ok_def)
  then have "Data R ! 1 = take (nat (Length P)) (Data R) ! 1"
    "Data P ! 1 = take (nat (Length P)) (Data P) ! 1"
    by simp_all
  with QR(4) fr have "Data R ! 1 = 0"
    by (simp add: wireguard_frame_def canonical_header_def)
  with QR show ?thesis by blast
qed

subsection \<open>A Response message with a zero MAC2 field\<close>

lemma response_marked:
  assumes "isAllZero (response_MAC2 P)"
  shows "hs_part 92 (Some 76) P = 76"
  using assms
  by (simp add: hs_part_def response_MAC2_def MessageResponseSize_def
        kMessageResponseTypeMAC2Offset_def)

lemma response_obfuscated:
  assumes en: "enabled ob" and fl: "PacketFlagObfuscateBeforeSend \<in> Flags P"
    and ok: "packet_ok P" and can: "canonical_header P"
    and ty: "MessageType P = MessageResponseType"
    and z: "isAllZero (response_MAC2 P)"
  shows "Obfuscate xxh ob ri rb P =
           Inr (wire xxh ob (hs_padded 92 (Some 76) ri rb P) 76)"
    and "\<exists>R. Deobfuscate xxh ob (wire xxh ob (hs_padded 92 (Some 76) ri rb P) 76) = Inr R
           \<and> Length R = 92 \<and> take 92 (Data R) = take 92 (Data P)
           \<and> length (Data R) = length (Data P)"
proof -
  note hb = canonical_header_bytes [OF can]
  have cap: "548 \<le> length (Data P)"
    using ok by (simp add: packet_ok_def kMinCapacity_def)
  have c: "int (92::nat) + 16 + 383 \<le> int (length (Data P))" using cap by simp
  have o: "\<And>off. Some (76::nat) = Some off \<Longrightarrow> 8 \<le> off \<and> off < (92::nat)" by auto
  have s: "16 \<le> (92::nat)" by simp
  note part = response_marked [OF z]
  note rt = handshake_roundtrip [where macOff = "Some 76" and msgSize = 92 and ri = ri
      and rb = rb and xxh = xxh, OF en c o s hb(1) hb(2)]
  show "Obfuscate xxh ob ri rb P = Inr (wire xxh ob (hs_padded 92 (Some 76) ri rb P) 76)"
    using en fl ty rt(1)
    by (simp add: Obfuscate_def part MessageInitiationType_def MessageResponseType_def
          MessageResponseSize_def kMessageResponseTypeMAC2Offset_def)
  from rt(3) show "\<exists>R. Deobfuscate xxh ob (wire xxh ob (hs_padded 92 (Some 76) ri rb P) 76) = Inr R
           \<and> Length R = 92 \<and> take 92 (Data R) = take 92 (Data P)
           \<and> length (Data R) = length (Data P)"
    using ty rt(2)
    by (simp add: part MessageInitiationType_def MessageResponseType_def
          MessageResponseSize_def kMessageResponseTypeMAC2Offset_def)
qed

lemma response_wire:
  assumes cap: "548 \<le> length (Data P)" and part: "hs_part 92 (Some 76) P = 76"
  shows "nonce_of (wire xxh ob (hs_padded 92 (Some 76) ri rb P) 76) =
           map rb [16 + ri mod 384..<32 + ri mod 384]"
    and "read_nonce (wire xxh ob (hs_padded 92 (Some 76) ri rb P) 76) =
           Inr (map rb [16 + ri mod 384..<32 + ri mod 384])"
    and "Data (wire xxh ob (hs_padded 92 (Some 76) ri rb P) 76) ! 1 =
           0x01 XOR first_block xxh (userKeyHash ob)
                      (map rb [16 + ri mod 384..<32 + ri mod 384]) ! 1"
    and "take 16 (drop 76 (Data (wire xxh ob (hs_padded 92 (Some 76) ri rb P) 76))) =
           map rb [0..<16]"
proof -
  let ?p = "hs_padded 92 (Some 76) ri rb P"
  have r: "ri mod 384 \<le> 383" by simp
  have L: "int (76::nat) + 16 \<le> Length ?p" "16 \<le> Length (wire xxh ob ?p 76)"
    "Length (wire xxh ob ?p 76) \<le> int (length (Data (wire xxh ob ?p 76)))"
    using cap r by simp_all
  have np: "nonce_of ?p = map rb [16 + ri mod 384..<32 + ri mod 384]"
    using cap r part
    by (intro nth_equalityI)
       (auto simp: nonce_of_def hs_padded_def nth_slice_fill kObfuscateNonceLength_def
          nat_add_distrib add.assoc)
  then show n: "nonce_of (wire xxh ob ?p 76) = map rb [16 + ri mod 384..<32 + ri mod 384]"
    by (simp add: nonce_of_wire [OF L(1)])
  show "read_nonce (wire xxh ob ?p 76) = Inr (map rb [16 + ri mod 384..<32 + ri mod 384])"
    using read_nonce_ok [OF L(2,3)] n by simp
  have "Data ?p ! 1 = 1"
    using part cap by (subst nth_hs_padded) simp_all
  then show "Data (wire xxh ob ?p 76) ! 1 =
           0x01 XOR first_block xxh (userKeyHash ob)
                      (map rb [16 + ri mod 384..<32 + ri mod 384]) ! 1"
    using cap np by (simp add: nth_wire obfs_key_def)
  show "take 16 (drop 76 (Data (wire xxh ob ?p 76))) = map rb [0..<16]"
    using part cap r
    by (intro nth_equalityI) (auto simp: nth_wire hs_padded_def nth_slice_fill)
qed

text \<open>
  C4, as amended. When a Response frame whose MAC2 field is zero is obfuscated,
  \<open>data[1]\<close> is set to 1 before the keystream is applied, so the wire packet carries
  \<open>data[1] = 1 XOR block\<^sub>0[1]\<close>, with \<open>block\<^sub>0\<close> the first key block (after the collision
  fix) of the packet's nonce; the MAC2 field of the wire packet holds the first 16 random
  bytes, outside the keystream; and \<open>Deobfuscate\<close> returns a packet whose \<open>data[1]\<close> and
  MAC2 field are zero.
\<close>

theorem response_zero_MAC2:
  assumes en: "enabled ob" and fl: "PacketFlagObfuscateBeforeSend \<in> Flags P"
    and ok: "packet_ok P" and can: "canonical_header P"
    and ty: "MessageType P = MessageResponseType"
    and z: "isAllZero (response_MAC2 P)"
  shows "\<exists>Q nonce R. Obfuscate xxh ob ri rb P = Inr Q
       \<and> read_nonce Q = Inr nonce
       \<and> Data Q ! 1 = 0x01 XOR first_block xxh (userKeyHash ob) nonce ! 1
       \<and> response_MAC2 Q = map rb [0..<16]
       \<and> Deobfuscate xxh ob Q = Inr R
       \<and> Data R ! 1 = 0 \<and> response_MAC2 R = replicate 16 0"
proof -
  let ?Q = "wire xxh ob (hs_padded 92 (Some 76) ri rb P) 76"
  have cap: "548 \<le> length (Data P)"
    using ok by (simp add: packet_ok_def kMinCapacity_def)
  note ro = response_obfuscated [OF en fl ok can ty z, where xxh = xxh and ri = ri and rb = rb]
  note rw = response_wire [OF cap response_marked [OF z],
      where xxh = xxh and ob = ob and ri = ri and rb = rb]
  from ro(2) obtain R where R: "Deobfuscate xxh ob ?Q = Inr R"
    "take 92 (Data R) = take 92 (Data P)" "length (Data R) = length (Data P)"
    by blast
  have nth: "Data R ! i = Data P ! i" if "i < 92" for i
  proof -
    have "Data R ! i = take 92 (Data R) ! i" using that by simp
    also have "\<dots> = take 92 (Data P) ! i" by (simp only: R(2))
    also have "\<dots> = Data P ! i" using that by simp
    finally show ?thesis .
  qed
  have r1: "Data R ! 1 = 0"
    using nth [of 1] can by (simp add: canonical_header_def)
  have z': "isAllZero (take 16 (drop 76 (Data P)))"
    using z by (simp add: response_MAC2_def MessageResponseSize_def
          kMessageResponseTypeMAC2Offset_def)
  have "take 16 (drop 76 (Data R)) = replicate 16 0"
  proof (intro nth_equalityI)
    show "length (take 16 (drop 76 (Data R))) = length (replicate 16 (0::byte))"
      using cap R(3) by simp
    fix i assume "i < length (take 16 (drop 76 (Data R)))"
    then have i: "i < 16" by simp
    then have "Data P ! (76 + i) = 0"
      using cap by (intro isAllZero_nth [OF z']) simp_all
    then show "take 16 (drop 76 (Data R)) ! i = replicate 16 (0::byte) ! i"
      using i cap R(3) nth [of "76 + i"] by simp
  qed
  then have r2: "response_MAC2 R = replicate 16 0"
    by (simp add: response_MAC2_def MessageResponseSize_def kMessageResponseTypeMAC2Offset_def)
  have q2: "response_MAC2 ?Q = map rb [0..<16]"
    using rw(4)
    by (simp add: response_MAC2_def MessageResponseSize_def kMessageResponseTypeMAC2Offset_def)
  from ro(1) rw(2) rw(3) q2 R(1) r1 r2 show ?thesis by blast
qed

lemma test_response_facts:
  "enabled test_obfuscator" "PacketFlagObfuscateBeforeSend \<in> Flags test_response"
  "packet_ok test_response" "canonical_header test_response"
  "MessageType test_response = MessageResponseType"
  "isAllZero (response_MAC2 test_response)"
  "wireguard_frame test_response"
  by (simp_all add: test_obfuscator_def test_response_def packet_ok_def kMinCapacity_def
        canonical_header_def MessageType_def MessageResponseType_def response_MAC2_def
        MessageResponseSize_def kMessageResponseTypeMAC2Offset_def isAllZero_iff
        wireguard_frame_def MessageInitiationType_def)

lemma test_first_block:
  "first_block XXH64 test_userKeyHash
     [test_random 16, test_random 17, test_random 18, test_random 19,
      test_random 20, test_random 21, test_random 22, test_random 23,
      test_random 24, test_random 25, test_random 26, test_random 27,
      test_random 28, test_random 29, test_random 30, test_random 31] =
     [93, 101, 108, 165, 56, 232, 71, 157]"
  by code_simp

theorem response_zero_MAC2_witness:
  "enabled test_obfuscator \<and> PacketFlagObfuscateBeforeSend \<in> Flags test_response
   \<and> packet_ok test_response \<and> canonical_header test_response
   \<and> MessageType test_response = MessageResponseType
   \<and> isAllZero (response_MAC2 test_response)
   \<and> (\<exists>Q nonce R. Obfuscate XXH64 test_obfuscator 0 test_random test_response = Inr Q
       \<and> read_nonce Q = Inr nonce
       \<and> Data Q ! 1 = 0x01 XOR first_block XXH64 (userKeyHash test_obfuscator) nonce ! 1
       \<and> response_MAC2 Q = map test_random [0..<16]
       \<and> Deobfuscate XXH64 test_obfuscator Q = Inr R
       \<and> Data R ! 1 = 0 \<and> response_MAC2 R = replicate 16 0)"
  using response_zero_MAC2 [OF test_response_facts(1-6), of XXH64 0 test_random]
    test_response_facts
  by simp

text \<open>
  C4, as stated, fails: with XXH64, the key of the test configuration, the random bytes
  \<open>test_random\<close> and no random suffix, the obfuscated Response frame \<open>test_response\<close>
  (zero MAC2) carries \<open>data[1] = 100\<close> on the wire, not 1.
\<close>

theorem wire_marker_counterexample:
  "enabled test_obfuscator \<and> PacketFlagObfuscateBeforeSend \<in> Flags test_response
   \<and> packet_ok test_response \<and> canonical_header test_response
   \<and> MessageType test_response = MessageResponseType
   \<and> isAllZero (response_MAC2 test_response)
   \<and> \<not> isl (Obfuscate XXH64 test_obfuscator 0 test_random test_response)
   \<and> Data (projr (Obfuscate XXH64 test_obfuscator 0 test_random test_response)) ! 1 = 100
   \<and> Data (projr (Obfuscate XXH64 test_obfuscator 0 test_random test_response)) ! 1 \<noteq> 0x01"
proof -
  have cap: "548 \<le> length (Data test_response)" by (simp add: test_response_def)
  note ro = response_obfuscated [OF test_response_facts(1-6),
      where xxh = XXH64 and ri = 0 and rb = test_random]
  note rw = response_wire [OF cap response_marked [OF test_response_facts(6)],
      where xxh = XXH64 and ob = test_obfuscator and ri = 0 and rb = test_random]
  have "Data (wire XXH64 test_obfuscator (hs_padded 92 (Some 76) 0 test_random test_response) 76) ! 1
      = 100"
    using rw(3) by (simp add: test_obfuscator_def test_first_block)
  then show ?thesis
    using test_response_facts by (simp add: ro(1))
qed

subsection \<open>The client mangler\<close>

lemma manglePacket_tiny:
  "length packet < 2 \<Longrightarrow> manglePacket c packet = Inl IndexOutOfRange"
  by (simp add: manglePacket_def Let_def)

lemma manglePacket_short:
  assumes "2 \<le> length packet" and "length packet < 4" and "client_xorKey c \<noteq> Some []"
  shows "\<exists>out. manglePacket c packet = Inr (out, Some (ErrPacketTooShort (int (length packet))))
           \<and> client_step c packet = Drop (ErrPacketTooShort (int (length packet)))"
  using assms by (cases "client_xorKey c") (auto simp: manglePacket_def client_step_def Let_def)

lemma manglePacket_stamps:
  assumes "4 \<le> length packet" and "client_xorKey c = None"
  shows "manglePacket c packet = Inr (packet[1 := word_of_int (client_id c)], None)"
    and "client_step c packet = Forward (packet[1 := word_of_int (client_id c)])"
  using assms by (simp_all add: manglePacket_def client_step_def Let_def)

lemma manglePacket_xors:
  assumes "4 \<le> length packet" and "client_xorKey c = Some key" and "key \<noteq> []"
  shows "\<exists>out. manglePacket c packet = Inr (out, None) \<and> client_step c packet = Forward out
           \<and> length out = length packet
           \<and> (\<forall>i < length packet.
                 out ! i = (packet[1 := word_of_int (client_id c)]) ! i XOR key ! (i mod length key))"
proof -
  let ?p = "packet[1 := word_of_int (client_id c)]"
  let ?out = "fold (\<lambda>i p. p[i := p ! i XOR key ! (i mod length key)]) [0..<length ?p] ?p"
  have "?out ! i = ?p ! i XOR key ! (i mod length key)" if "i < length packet" for i
    using that nth_fold_upd [of "[0..<length ?p]" "\<lambda>j v. v XOR key ! (j mod length key)" ?p i]
    by simp
  moreover have "length ?out = length packet" by (simp add: length_fold_upd)
  moreover have "manglePacket c packet = Inr (?out, None)"
    using assms by (simp add: manglePacket_def Let_def)
  ultimately show ?thesis by (simp add: client_step_def)
qed

text \<open>
  C9. The spec asks for a \<open>PacketTooShort\<close> error and a dropped datagram for every
  datagram shorter than 4 bytes. \<open>manglePacket\<close> sets the error and goes on (it has no
  \<open>return\<close> there): on a datagram of one byte the assignment to \<open>packet[1]\<close> panics, and
  the client loop does not drop the datagram but ends.
\<close>

theorem manglePacket_one_byte_panics:
  "manglePacket test_client [0x04] = Inl IndexOutOfRange
   \<and> client_step test_client [0x04] = Crash IndexOutOfRange"
  by (simp add: manglePacket_def client_step_def Let_def)

subsection \<open>Concrete instances of the theorems above\<close>

theorem roundtrip_canonical_witness:
  "''kisekimo, mahoumo, muryoudewaarimasen'' \<noteq> [] \<and> packet_ok test_response
   \<and> wireguard_frame test_response
   \<and> (\<exists>Q R. Obfuscate XXH64
                (Initialize test_sha test_obfuscator ''kisekimo, mahoumo, muryoudewaarimasen'')
                0 test_random test_response = Inr Q
          \<and> Deobfuscate XXH64
                (Initialize test_sha test_obfuscator ''kisekimo, mahoumo, muryoudewaarimasen'')
                Q = Inr R
          \<and> Length R = Length test_response
          \<and> take (nat (Length test_response)) (Data R)
              = take (nat (Length test_response)) (Data test_response)
          \<and> length (Data R) = length (Data test_response)
          \<and> Data R ! 1 = 0)"
proof -
  have key: "''kisekimo, mahoumo, muryoudewaarimasen'' \<noteq> []" by simp
  from roundtrip_canonical [OF key test_response_facts(3) test_response_facts(7),
      where xxh = XXH64 and ?sha256.0 = test_sha and ?ob0.0 = test_obfuscator and ri = 0
        and rb = test_random]
  show ?thesis using test_response_facts(3,7) by simp
qed

lemma test_transport_facts:
  "PacketFlagObfuscateBeforeSend \<in> Flags test_transport" "packet_ok test_transport"
  "1 \<le> Data test_transport ! 0" "Data test_transport ! 0 \<le> 4" "Data test_transport ! 1 = 0"
  "MessageType test_transport = MessageTransportType" "Length test_transport = 100"
  by (simp_all add: test_transport_def packet_ok_def kMinCapacity_def MessageType_def
        MessageTransportType_def)

theorem obfuscated_header_not_canonical_witness:
  "enabled test_obfuscator \<and> PacketFlagObfuscateBeforeSend \<in> Flags test_transport
   \<and> packet_ok test_transport \<and> 1 \<le> Data test_transport ! 0 \<and> Data test_transport ! 0 \<le> 4
   \<and> Data test_transport ! 1 = 0
   \<and> (\<exists>Q. Obfuscate XXH64 test_obfuscator 0 test_random test_transport = Inr Q
          \<and> \<not> canonical_header Q)"
proof -
  have m: "Data test_transport ! 1 = 0 \<or> Data test_transport ! 1 = 1"
    using test_transport_facts(5) by simp
  from obfuscated_header_not_canonical [OF test_response_facts(1) test_transport_facts(1-4) m,
      where xxh = XXH64 and ri = 0 and rb = test_random]
  show ?thesis using test_response_facts(1) test_transport_facts by simp
qed

theorem Obfuscate_length_witness:
  "enabled test_obfuscator \<and> PacketFlagObfuscateBeforeSend \<in> Flags test_transport
   \<and> packet_ok test_transport \<and> MessageType test_transport = MessageTransportType
   \<and> Length test_transport < 256
   \<and> (\<exists>Q. Obfuscate XXH64 test_obfuscator 0 test_random test_transport = Inr Q
          \<and> Length Q = 116)"
proof -
  from Obfuscate_length [OF test_response_facts(1) test_transport_facts(1,2),
      where xxh = XXH64 and ri = 0 and rb = test_random]
  show ?thesis using test_response_facts(1) test_transport_facts by auto
qed

end
